theory Spec2Isabelle
  imports Complex_Main "HOL-Library.Sublist"
begin

section \<open>parallel-utils.ts: bounded-concurrency map\<close>

subsection \<open>JavaScript numbers, as far as \<open>mapConcurrent\<close> uses them\<close>

text \<open>
  The parameter \<open>limit\<close> of \<open>mapConcurrent\<close> has the TypeScript type \<open>number\<close>: a finite
  value, one of the two infinities, or NaN (\<open>undefined\<close> becomes NaN under \<open>Math.floor\<close>).
  Finite values are modelled as reals; the functions below are \<open>Math.floor\<close>, the
  operator \<open>||\<close> on a number, \<open>Math.max\<close>, \<open>Math.min\<close> and the conversion \<open>ToLength\<close> that
  \<open>Array.from({ length })\<close> applies.
\<close>

datatype jsnum = NaN | NegInf | Fin real | PosInf

fun js_floor :: "jsnum \<Rightarrow> jsnum" where
  "js_floor (Fin r) = Fin (of_int \<lfloor>r\<rfloor>)"
| "js_floor x = x"

definition js_truthy_num :: "jsnum \<Rightarrow> bool" where
  "js_truthy_num x = (x \<noteq> NaN \<and> x \<noteq> Fin 0)"

definition js_or :: "jsnum \<Rightarrow> jsnum \<Rightarrow> jsnum" where
  "js_or a b = (if js_truthy_num a then a else b)"

fun js_max :: "jsnum \<Rightarrow> jsnum \<Rightarrow> jsnum" where
  "js_max NaN _ = NaN"
| "js_max _ NaN = NaN"
| "js_max PosInf _ = PosInf"
| "js_max _ PosInf = PosInf"
| "js_max NegInf y = y"
| "js_max x NegInf = x"
| "js_max (Fin a) (Fin b) = Fin (max a b)"

fun js_min :: "jsnum \<Rightarrow> jsnum \<Rightarrow> jsnum" where
  "js_min NaN _ = NaN"
| "js_min _ NaN = NaN"
| "js_min NegInf _ = NegInf"
| "js_min _ NegInf = NegInf"
| "js_min PosInf y = y"
| "js_min x PosInf = x"
| "js_min (Fin a) (Fin b) = Fin (min a b)"

fun to_length :: "jsnum \<Rightarrow> nat" where
  "to_length NaN = 0"
| "to_length NegInf = 0"
| "to_length PosInf = 2 ^ 53 - 1"
| "to_length (Fin r) = (if r \<le> 0 then 0 else min (nat \<lfloor>r\<rfloor>) (2 ^ 53 - 1))"

text \<open>\<^verbatim>\<open>const safeLimit = Math.max(1, Math.floor(limit) || 1);\<close>\<close>

definition safeLimit :: "jsnum \<Rightarrow> jsnum" where
  "safeLimit limit = js_max (Fin 1) (js_or (js_floor limit) (Fin 1))"

text \<open>
  The number of workers: \<^verbatim>\<open>Array.from({ length: Math.min(safeLimit, items.length) }, ...)\<close>.
\<close>

definition workerCount :: "jsnum \<Rightarrow> nat \<Rightarrow> nat" where
  "workerCount limit n = to_length (js_min (safeLimit limit) (Fin (of_nat n)))"

subsection \<open>The workers of \<open>mapConcurrent\<close>\<close>

text \<open>
  \<^verbatim>\<open>
  const results: R[] = new Array(items.length);
  let next = 0;
  async function worker(): Promise<void> {
    while (next < items.length) {
      const i = next++;
      results[i] = await fn(items[i], i);
    }
  }
  await Promise.all(Array.from({ length: Math.min(safeLimit, items.length) }, () => worker()));
  return results;
  \<close>
  JavaScript runs one piece of code at a time, up to the next \<open>await\<close>. A worker is
  therefore always in one of these states: created but not yet run (\<open>Idle\<close>, only while
  \<open>Array.from\<close> is still creating workers), suspended at its \<open>await\<close> on the call for index
  \<open>i\<close> that is still in flight (\<open>Awaiting i\<close>), suspended at its \<open>await\<close> on a call that
  returned without waiting for anything (\<open>Resolved i v\<close>), or returned (\<open>Finished\<close>).

  The callback \<open>fn\<close> is given by two functions on a caller's state \<open>'u\<close>: \<open>fn_start\<close> is
  the code of \<open>fn\<close> up to its first wait (it returns \<open>Some v\<close> when \<open>fn\<close> returns \<open>v\<close> without
  waiting), \<open>fn_resume\<close> the code after the wait, up to the returned value. Which
  suspended worker continues next is the scheduler's choice: a schedule is the list of
  the workers' numbers in the order they continue.
\<close>

datatype 'r wstate = Idle | Awaiting nat | Resolved nat 'r | Finished

record ('r, 'u) mc_state =
  mc_next :: nat
  mc_results :: "'r option list"
  mc_workers :: "'r wstate list"
  mc_user :: 'u

definition worker_loop ::
  "'a list \<Rightarrow> ('a \<Rightarrow> nat \<Rightarrow> 'u \<Rightarrow> 'r option \<times> 'u) \<Rightarrow> nat \<Rightarrow> ('r, 'u) mc_state \<Rightarrow> ('r, 'u) mc_state"
  where
  "worker_loop items fn_start w st =
     (if mc_next st < length items then
        (let i = mc_next st;
             ru = fn_start (items ! i) i (mc_user st)
         in st\<lparr>mc_next := Suc i,
               mc_workers := (mc_workers st)
                 [w := (case fst ru of Some v \<Rightarrow> Resolved i v | None \<Rightarrow> Awaiting i)],
               mc_user := snd ru\<rparr>)
      else st\<lparr>mc_workers := (mc_workers st)[w := Finished]\<rparr>)"

definition worker_resume ::
  "'a list \<Rightarrow> ('a \<Rightarrow> nat \<Rightarrow> 'u \<Rightarrow> 'r option \<times> 'u) \<Rightarrow> ('a \<Rightarrow> nat \<Rightarrow> 'u \<Rightarrow> 'r \<times> 'u) \<Rightarrow>
   nat \<Rightarrow> ('r, 'u) mc_state \<Rightarrow> ('r, 'u) mc_state"
  where
  "worker_resume items fn_start fn_resume w st =
     (if w < length (mc_workers st) then
        (case mc_workers st ! w of
           Awaiting i \<Rightarrow>
             (let vu = fn_resume (items ! i) i (mc_user st)
              in worker_loop items fn_start w
                   (st\<lparr>mc_results := (mc_results st)[i := Some (fst vu)], mc_user := snd vu\<rparr>))
         | Resolved i v \<Rightarrow>
             worker_loop items fn_start w (st\<lparr>mc_results := (mc_results st)[i := Some v]\<rparr>)
         | _ \<Rightarrow> st)
      else st)"

definition mc_init ::
  "'a list \<Rightarrow> jsnum \<Rightarrow> ('a \<Rightarrow> nat \<Rightarrow> 'u \<Rightarrow> 'r option \<times> 'u) \<Rightarrow> 'u \<Rightarrow> ('r, 'u) mc_state"
  where
  "mc_init items limit fn_start u =
     fold (worker_loop items fn_start) [0 ..< workerCount limit (length items)]
       \<lparr>mc_next = 0, mc_results = replicate (length items) None,
        mc_workers = replicate (workerCount limit (length items)) Idle, mc_user = u\<rparr>"

definition mc_run ::
  "'a list \<Rightarrow> ('a \<Rightarrow> nat \<Rightarrow> 'u \<Rightarrow> 'r option \<times> 'u) \<Rightarrow> ('a \<Rightarrow> nat \<Rightarrow> 'u \<Rightarrow> 'r \<times> 'u) \<Rightarrow>
   nat list \<Rightarrow> ('r, 'u) mc_state \<Rightarrow> ('r, 'u) mc_state"
  where
  "mc_run items fn_start fn_resume sched st = fold (worker_resume items fn_start fn_resume) sched st"

definition mc_done :: "('r, 'u) mc_state \<Rightarrow> bool" where
  "mc_done st = list_all (\<lambda>w. w = Finished) (mc_workers st)"

fun is_awaiting :: "'r wstate \<Rightarrow> bool" where
  "is_awaiting (Awaiting i) = True"
| "is_awaiting _ = False"

text \<open>The calls of \<open>fn\<close> that have started and not yet returned.\<close>

definition inflight :: "('r, 'u) mc_state \<Rightarrow> nat" where
  "inflight st = length (filter is_awaiting (mc_workers st))"

text \<open>
  \<open>mapConcurrent\<close> under a schedule: the promise it returns is fulfilled with \<open>results\<close>
  once every worker has returned (\<open>Promise.all\<close>), and is still pending (\<open>None\<close>) when the
  schedule ends before that. An entry of \<open>results\<close> is \<open>None\<close> where the array has a hole.
\<close>

definition mapConcurrent ::
  "'a list \<Rightarrow> jsnum \<Rightarrow> ('a \<Rightarrow> nat \<Rightarrow> 'u \<Rightarrow> 'r option \<times> 'u) \<Rightarrow> ('a \<Rightarrow> nat \<Rightarrow> 'u \<Rightarrow> 'r \<times> 'u) \<Rightarrow>
   'u \<Rightarrow> nat list \<Rightarrow> ('r option list \<times> 'u) option"
  where
  "mapConcurrent items limit fn_start fn_resume u sched =
     (let st = mc_run items fn_start fn_resume sched (mc_init items limit fn_start u)
      in if mc_done st then Some (mc_results st, mc_user st) else None)"

text \<open>The states a run of \<open>mapConcurrent\<close> passes through, one per schedule.\<close>

definition mc_reach ::
  "'a list \<Rightarrow> jsnum \<Rightarrow> ('a \<Rightarrow> nat \<Rightarrow> 'u \<Rightarrow> 'r option \<times> 'u) \<Rightarrow> ('a \<Rightarrow> nat \<Rightarrow> 'u \<Rightarrow> 'r \<times> 'u) \<Rightarrow>
   'u \<Rightarrow> nat list \<Rightarrow> ('r, 'u) mc_state"
  where
  "mc_reach items limit fn_start fn_resume u sched =
     mc_run items fn_start fn_resume sched (mc_init items limit fn_start u)"

subsection \<open>The effective bound\<close>

lemma safeLimit_eq:
  "safeLimit limit =
     (case limit of Fin r \<Rightarrow> if 1 \<le> r then Fin (of_int \<lfloor>r\<rfloor>) else Fin 1
      | PosInf \<Rightarrow> PosInf | _ \<Rightarrow> Fin 1)"
proof (cases limit)
  case (Fin r)
  show ?thesis
  proof (cases "1 \<le> r")
    case True
    then have "1 \<le> \<lfloor>r\<rfloor>" by simp
    then have "(1::real) \<le> of_int \<lfloor>r\<rfloor>" and "\<lfloor>r\<rfloor> \<noteq> 0" by linarith+
    with Fin True show ?thesis
      by (simp add: safeLimit_def js_or_def js_truthy_num_def max_def)
  next
    case False
    then have "\<lfloor>r\<rfloor> \<le> 0" by (simp add: floor_le_iff)
    then have "(of_int \<lfloor>r\<rfloor> :: real) \<le> 0" by simp
    with Fin False show ?thesis
      by (auto simp: safeLimit_def js_or_def js_truthy_num_def max_def)
  qed
qed (simp_all add: safeLimit_def js_or_def js_truthy_num_def)

lemma workerCount_le_items: "workerCount limit n \<le> n"
proof (cases limit)
  case (Fin r)
  have "nat \<lfloor>min (real_of_int \<lfloor>r\<rfloor>) (real n)\<rfloor> \<le> n" by linarith
  moreover have "nat \<lfloor>min (1::real) (real n)\<rfloor> \<le> n" by linarith
  ultimately show ?thesis using Fin
    by (auto simp: workerCount_def safeLimit_eq min.coboundedI1)
qed (auto simp: workerCount_def safeLimit_eq)


lemma workerCount_pos: "0 < n \<Longrightarrow> 0 < workerCount limit n"
proof (cases limit)
  case (Fin r)
  assume n: "0 < n"
  then have a: "0 < nat \<lfloor>min (1::real) (real n)\<rfloor>" by (simp add: min_def)
  show ?thesis
  proof (cases "1 \<le> r")
    case True
    then have "1 \<le> \<lfloor>r\<rfloor>" by simp
    then have "0 < nat \<lfloor>min (real_of_int \<lfloor>r\<rfloor>) (real n)\<rfloor>" using n by (simp add: min_def)
    moreover have "\<not> min (real_of_int \<lfloor>r\<rfloor>) (real n) \<le> 0" using n \<open>1 \<le> \<lfloor>r\<rfloor>\<close> by (simp add: min_def)
    ultimately show ?thesis using Fin True by (simp add: workerCount_def safeLimit_eq)
  next
    case False
    moreover have "\<not> min (1::real) (real n) \<le> 0" using n by (simp add: min_def)
    ultimately show ?thesis using Fin a by (simp add: workerCount_def safeLimit_eq)
  qed
qed (auto simp: workerCount_def safeLimit_eq)

lemma workerCount_clamped:
  assumes "limit = NaN \<or> limit = NegInf \<or> (\<exists>r. limit = Fin r \<and> r < 1)"
  shows "workerCount limit n \<le> 1"
proof -
  have "nat \<lfloor>min (1::real) (real n)\<rfloor> \<le> 1" by linarith
  with assms show ?thesis by (auto simp: workerCount_def safeLimit_eq)
qed

lemma workerCount_floor:
  assumes "1 \<le> r"
  shows "workerCount (Fin r) n \<le> nat \<lfloor>r\<rfloor>"
proof -
  have "nat \<lfloor>min (real_of_int \<lfloor>r\<rfloor>) (real n)\<rfloor> \<le> nat \<lfloor>r\<rfloor>" by linarith
  with assms show ?thesis by (auto simp: workerCount_def safeLimit_eq min.coboundedI1)
qed

subsection \<open>Invariants of the workers\<close>

fun held :: "'r wstate \<Rightarrow> nat option" where
  "held (Awaiting i) = Some i"
| "held (Resolved i v) = Some i"
| "held _ = None"

text \<open>
  \<open>mc_inv n Q\<close>: the array has \<open>n\<close> slots; every index below \<open>next\<close> has its result or is
  held by a worker; a worker has returned only when no index is left; stored and
  pending values satisfy the postcondition \<open>Q\<close> of \<open>fn\<close>; slots from \<open>next\<close> on are holes.
\<close>

definition mc_inv :: "nat \<Rightarrow> (nat \<Rightarrow> 'r \<Rightarrow> bool) \<Rightarrow> ('r, 'u) mc_state \<Rightarrow> bool" where
  "mc_inv n Q st \<longleftrightarrow>
     length (mc_results st) = n \<and> mc_next st \<le> n \<and>
     (\<forall>i < mc_next st. mc_results st ! i \<noteq> None \<or>
        (\<exists>w < length (mc_workers st). held (mc_workers st ! w) = Some i)) \<and>
     (Finished \<in> set (mc_workers st) \<longrightarrow> mc_next st = n) \<and>
     (\<forall>i v. i < n \<longrightarrow> mc_results st ! i = Some v \<longrightarrow> Q i v) \<and>
     (\<forall>w i v. w < length (mc_workers st) \<longrightarrow> mc_workers st ! w = Resolved i v \<longrightarrow> Q i v) \<and>
     (\<forall>w i. w < length (mc_workers st) \<longrightarrow> held (mc_workers st ! w) = Some i \<longrightarrow> i < mc_next st)"

definition fn_post ::
  "'a list \<Rightarrow> (nat \<Rightarrow> 'r \<Rightarrow> bool) \<Rightarrow> ('a \<Rightarrow> nat \<Rightarrow> 'u \<Rightarrow> 'r option \<times> 'u) \<Rightarrow>
   ('a \<Rightarrow> nat \<Rightarrow> 'u \<Rightarrow> 'r \<times> 'u) \<Rightarrow> bool" where
  "fn_post items Q fn_start fn_resume \<longleftrightarrow>
     (\<forall>i u v. i < length items \<longrightarrow> fst (fn_start (items ! i) i u) = Some v \<longrightarrow> Q i v) \<and>
     (\<forall>i u. i < length items \<longrightarrow> Q i (fst (fn_resume (items ! i) i u)))"

lemma worker_loop_workers_length [simp]:
  "length (mc_workers (worker_loop items fs w st)) = length (mc_workers st)"
  by (simp add: worker_loop_def Let_def)

lemma worker_resume_workers_length [simp]:
  "length (mc_workers (worker_resume items fs fr w st)) = length (mc_workers st)"
  by (simp add: worker_resume_def Let_def split: wstate.split)

lemma mc_run_workers_length [simp]:
  "length (mc_workers (mc_run items fs fr sched st)) = length (mc_workers st)"
  unfolding mc_run_def by (induction sched arbitrary: st) simp_all

lemma fold_worker_loop_workers_length [simp]:
  "length (mc_workers (fold (worker_loop items fs) ws st)) = length (mc_workers st)"
  by (induction ws arbitrary: st) simp_all

lemma mc_init_workers_length [simp]:
  "length (mc_workers (mc_init items limit fs u)) = workerCount limit (length items)"
  by (simp add: mc_init_def)

lemma inflight_le_workers: "inflight st \<le> length (mc_workers st)"
  by (simp add: inflight_def)

lemma worker_loop_inv:
  assumes inv: "mc_inv (length items) Q st"
    and w: "w < length (mc_workers st)"
    and free: "\<And>i. held (mc_workers st ! w) = Some i \<Longrightarrow> mc_results st ! i \<noteq> None"
    and post: "\<And>i u v. i < length items \<Longrightarrow> fst (fs (items ! i) i u) = Some v \<Longrightarrow> Q i v"
  shows "mc_inv (length items) Q (worker_loop items fs w st)"
proof (cases "mc_next st < length items")
  case False
  with inv have nx: "mc_next st = length items" by (simp add: mc_inv_def)
  have wl: "worker_loop items fs w st = st\<lparr>mc_workers := (mc_workers st)[w := Finished]\<rparr>"
    using False by (simp add: worker_loop_def)
  have cover: "\<forall>i < mc_next st. mc_results st ! i \<noteq> None \<or>
      (\<exists>w' < length (mc_workers st). held ((mc_workers st)[w := Finished] ! w') = Some i)"
  proof (intro allI impI)
    fix i assume "i < mc_next st"
    with inv have "mc_results st ! i \<noteq> None \<or>
        (\<exists>w' < length (mc_workers st). held (mc_workers st ! w') = Some i)"
      by (simp add: mc_inv_def)
    then show "mc_results st ! i \<noteq> None \<or>
      (\<exists>w' < length (mc_workers st). held ((mc_workers st)[w := Finished] ! w') = Some i)"
    proof
      assume "mc_results st ! i \<noteq> None" then show ?thesis by simp
    next
      assume "\<exists>w' < length (mc_workers st). held (mc_workers st ! w') = Some i"
      then obtain w' where w': "w' < length (mc_workers st)" "held (mc_workers st ! w') = Some i"
        by blast
      show ?thesis
      proof (cases "w' = w")
        case True with w' free show ?thesis by blast
      next
        case False with w' show ?thesis by auto
      qed
    qed
  qed
  from inv have rest: "length (mc_results st) = length items"
    "\<forall>i v. i < length items \<longrightarrow> mc_results st ! i = Some v \<longrightarrow> Q i v"
    "\<forall>w i v. w < length (mc_workers st) \<longrightarrow> mc_workers st ! w = Resolved i v \<longrightarrow> Q i v"
    "\<forall>w i. w < length (mc_workers st) \<longrightarrow> held (mc_workers st ! w) = Some i \<longrightarrow> i < mc_next st"
    by (simp_all add: mc_inv_def)
  show ?thesis
    unfolding wl mc_inv_def using rest cover nx w
    by (auto simp: nth_list_update split: if_splits)
next
  case True
  define i where "i = mc_next st"
  define ws where "ws = (case fst (fs (items ! i) i (mc_user st)) of
      Some v \<Rightarrow> Resolved i v | None \<Rightarrow> Awaiting i)"
  have wl: "worker_loop items fs w st =
      st\<lparr>mc_next := Suc i, mc_workers := (mc_workers st)[w := ws], mc_user := snd (fs (items ! i) i (mc_user st))\<rparr>"
    unfolding ws_def i_def using True by (simp add: worker_loop_def Let_def)
  have hws: "held ws = Some i" by (simp add: ws_def split: option.split)
  have nf: "ws \<noteq> Finished" by (simp add: ws_def split: option.split)
  have qws: "\<And>j v. ws = Resolved j v \<Longrightarrow> Q j v"
    using post[of i] True by (auto simp: ws_def i_def split: option.splits)
  from inv True have nofin: "Finished \<notin> set (mc_workers st)" by (auto simp: mc_inv_def)
  from inv have rest: "length (mc_results st) = length items"
    "\<forall>i v. i < length items \<longrightarrow> mc_results st ! i = Some v \<longrightarrow> Q i v"
    "\<forall>w i v. w < length (mc_workers st) \<longrightarrow> mc_workers st ! w = Resolved i v \<longrightarrow> Q i v"
    "\<forall>w i. w < length (mc_workers st) \<longrightarrow> held (mc_workers st ! w) = Some i \<longrightarrow> i < mc_next st"
    by (simp_all add: mc_inv_def)
  have cover: "\<forall>j < Suc i. mc_results st ! j \<noteq> None \<or>
      (\<exists>w' < length (mc_workers st). held ((mc_workers st)[w := ws] ! w') = Some j)"
  proof (intro allI impI)
    fix j assume j: "j < Suc i"
    show "mc_results st ! j \<noteq> None \<or>
      (\<exists>w' < length (mc_workers st). held ((mc_workers st)[w := ws] ! w') = Some j)"
    proof (cases "j = i")
      case True
      with w hws show ?thesis by auto
    next
      case False
      with j have "j < mc_next st" by (simp add: i_def)
      with inv have "mc_results st ! j \<noteq> None \<or>
          (\<exists>w' < length (mc_workers st). held (mc_workers st ! w') = Some j)"
        by (simp add: mc_inv_def)
      then show ?thesis
      proof
        assume "mc_results st ! j \<noteq> None" then show ?thesis by simp
      next
        assume "\<exists>w' < length (mc_workers st). held (mc_workers st ! w') = Some j"
        then obtain w' where w': "w' < length (mc_workers st)" "held (mc_workers st ! w') = Some j"
          by blast
        show ?thesis
        proof (cases "w' = w")
          case True with w' free show ?thesis by blast
        next
          case False with w' show ?thesis by auto
        qed
      qed
    qed
  qed
  have fin: "Finished \<notin> set ((mc_workers st)[w := ws])"
    using nofin nf by (auto dest!: set_update_subset_insert[THEN subsetD])
  have held_lt: "\<forall>w' j. w' < length (mc_workers st) \<longrightarrow>
      held ((mc_workers st)[w := ws] ! w') = Some j \<longrightarrow> j < Suc i"
    using rest(4) hws w by (auto simp: nth_list_update i_def less_Suc_eq split: if_splits)
  have res_q: "\<forall>w' j v. w' < length (mc_workers st) \<longrightarrow>
      (mc_workers st)[w := ws] ! w' = Resolved j v \<longrightarrow> Q j v"
    using rest(3) qws w by (auto simp: nth_list_update split: if_splits)
  show ?thesis
    unfolding wl mc_inv_def using rest(1,2) cover fin held_lt res_q True
    by (simp add: i_def)
qed


lemma mc_inv_store:
  assumes inv: "mc_inv n Q st" and i: "i < n" and q: "Q i v"
    and st2: "mc_next st2 = mc_next st" "mc_workers st2 = mc_workers st"
      "mc_results st2 = (mc_results st)[i := Some v]"
  shows "mc_inv n Q st2"
proof -
  from inv have len: "length (mc_results st) = n" by (simp add: mc_inv_def)
  have cover: "\<forall>j < mc_next st. (mc_results st)[i := Some v] ! j \<noteq> None \<or>
      (\<exists>w < length (mc_workers st). held (mc_workers st ! w) = Some j)"
  proof (intro allI impI)
    fix j assume "j < mc_next st"
    with inv have "mc_results st ! j \<noteq> None \<or>
        (\<exists>w < length (mc_workers st). held (mc_workers st ! w) = Some j)"
      by (simp add: mc_inv_def)
    then show "(mc_results st)[i := Some v] ! j \<noteq> None \<or>
      (\<exists>w < length (mc_workers st). held (mc_workers st ! w) = Some j)"
      using len i by (cases "j = i") auto
  qed
  have qs: "\<forall>j v'. j < n \<longrightarrow> (mc_results st)[i := Some v] ! j = Some v' \<longrightarrow> Q j v'"
    using inv q len i by (auto simp: mc_inv_def nth_list_update split: if_splits)
  show ?thesis
    unfolding mc_inv_def st2 using inv cover qs len by (simp add: mc_inv_def)
qed

lemma worker_resume_inv:
  assumes inv: "mc_inv (length items) Q st"
    and post: "fn_post items Q fs fr"
  shows "mc_inv (length items) Q (worker_resume items fs fr w st)"
proof (cases "w < length (mc_workers st)")
  case False
  then show ?thesis using inv by (simp add: worker_resume_def)
next
  case w: True
  from post have p1: "\<And>i u v. i < length items \<Longrightarrow> fst (fs (items ! i) i u) = Some v \<Longrightarrow> Q i v"
    and p2: "\<And>i u. i < length items \<Longrightarrow> Q i (fst (fr (items ! i) i u))"
    by (auto simp: fn_post_def)
  from inv have len: "length (mc_results st) = length items" by (simp add: mc_inv_def)
  show ?thesis
  proof (cases "mc_workers st ! w")
    case Idle
    then show ?thesis using inv w by (simp add: worker_resume_def)
  next
    case Finished
    then show ?thesis using inv w by (simp add: worker_resume_def)
  next
    case (Awaiting i)
    with inv w have "i < mc_next st" by (auto simp: mc_inv_def)
    with inv have i: "i < length items" by (simp add: mc_inv_def)
    define st2 where "st2 = st\<lparr>mc_results := (mc_results st)[i := Some (fst (fr (items ! i) i (mc_user st)))],
        mc_user := snd (fr (items ! i) i (mc_user st))\<rparr>"
    have inv2: "mc_inv (length items) Q st2"
      by (rule mc_inv_store[OF inv i p2[OF i]]) (simp_all add: st2_def)
    have "mc_inv (length items) Q (worker_loop items fs w st2)"
    proof (rule worker_loop_inv[OF inv2 _ _ p1])
      show "w < length (mc_workers st2)" using w by (simp add: st2_def)
      show "\<And>j. held (mc_workers st2 ! w) = Some j \<Longrightarrow> mc_results st2 ! j \<noteq> None"
        using Awaiting i len by (simp add: st2_def)
    qed
    then show ?thesis using Awaiting w by (simp add: worker_resume_def Let_def st2_def)
  next
    case (Resolved i v)
    with inv w have "i < mc_next st" and q: "Q i v" by (auto simp: mc_inv_def)
    with inv have i: "i < length items" by (simp add: mc_inv_def)
    define st2 where "st2 = st\<lparr>mc_results := (mc_results st)[i := Some v]\<rparr>"
    have inv2: "mc_inv (length items) Q st2"
      by (rule mc_inv_store[OF inv i q]) (simp_all add: st2_def)
    have "mc_inv (length items) Q (worker_loop items fs w st2)"
    proof (rule worker_loop_inv[OF inv2 _ _ p1])
      show "w < length (mc_workers st2)" using w by (simp add: st2_def)
      show "\<And>j. held (mc_workers st2 ! w) = Some j \<Longrightarrow> mc_results st2 ! j \<noteq> None"
        using Resolved i len by (simp add: st2_def)
    qed
    then show ?thesis using Resolved w by (simp add: worker_resume_def st2_def)
  qed
qed

lemma mc_run_inv:
  assumes "mc_inv (length items) Q st" and "fn_post items Q fs fr"
  shows "mc_inv (length items) Q (mc_run items fs fr sched st)"
  using assms unfolding mc_run_def
  by (induction sched arbitrary: st) (simp_all add: worker_resume_inv)

text \<open>While \<open>Array.from\<close> creates the workers: those not yet created are \<open>Idle\<close>.\<close>

lemma worker_loop_other:
  "w' \<noteq> w \<Longrightarrow> mc_workers (worker_loop items fs w st) ! w' = mc_workers st ! w'"
  by (simp add: worker_loop_def Let_def)

lemma worker_loop_not_idle:
  "w < length (mc_workers st) \<Longrightarrow> mc_workers (worker_loop items fs w st) ! w \<noteq> Idle"
  by (simp add: worker_loop_def Let_def split: option.split)

lemma mc_init_fold:
  assumes post: "\<And>i u v. i < length items \<Longrightarrow> fst (fs (items ! i) i u) = Some v \<Longrightarrow> Q i v"
    and j: "j \<le> k"
  shows "mc_inv (length items) Q (fold (worker_loop items fs) [0 ..< j]
           \<lparr>mc_next = 0, mc_results = replicate (length items) None,
            mc_workers = replicate k Idle, mc_user = u\<rparr>) \<and>
         (\<forall>w. j \<le> w \<and> w < k \<longrightarrow> mc_workers (fold (worker_loop items fs) [0 ..< j]
           \<lparr>mc_next = 0, mc_results = replicate (length items) None,
            mc_workers = replicate k Idle, mc_user = u\<rparr>) ! w = Idle) \<and>
         (\<forall>w < j. mc_workers (fold (worker_loop items fs) [0 ..< j]
           \<lparr>mc_next = 0, mc_results = replicate (length items) None,
            mc_workers = replicate k Idle, mc_user = u\<rparr>) ! w \<noteq> Idle)"
  using j
proof (induction j)
  case 0
  show ?case by (simp add: mc_inv_def)
next
  case (Suc j)
  define st where "st = fold (worker_loop items fs) [0 ..< j]
           \<lparr>mc_next = 0, mc_results = replicate (length items) None,
            mc_workers = replicate k Idle, mc_user = u\<rparr>"
  from Suc have inv: "mc_inv (length items) Q st"
    and idle: "\<forall>w. j \<le> w \<and> w < k \<longrightarrow> mc_workers st ! w = Idle"
    and nidle: "\<forall>w < j. mc_workers st ! w \<noteq> Idle"
    by (simp_all add: st_def)
  have len: "length (mc_workers st) = k" by (simp add: st_def)
  have jk: "j < k" using Suc.prems by simp
  have step: "fold (worker_loop items fs) [0 ..< Suc j]
           \<lparr>mc_next = 0, mc_results = replicate (length items) None,
            mc_workers = replicate k Idle, mc_user = u\<rparr> = worker_loop items fs j st"
    by (simp add: st_def)
  have "mc_inv (length items) Q (worker_loop items fs j st)"
  proof (rule worker_loop_inv[OF inv _ _ post])
    show "j < length (mc_workers st)" using jk len by simp
    show "\<And>i. held (mc_workers st ! j) = Some i \<Longrightarrow> mc_results st ! i \<noteq> None"
      using idle jk by simp
  qed
  moreover have "\<forall>w. Suc j \<le> w \<and> w < k \<longrightarrow> mc_workers (worker_loop items fs j st) ! w = Idle"
    using idle by (simp add: worker_loop_other)
  moreover have "\<forall>w < Suc j. mc_workers (worker_loop items fs j st) ! w \<noteq> Idle"
    using nidle jk len by (auto simp: less_Suc_eq worker_loop_other worker_loop_not_idle)
  ultimately show ?case unfolding step by blast
qed

lemma mc_init_inv:
  assumes "fn_post items Q fs fr"
  shows "mc_inv (length items) Q (mc_init items limit fs u)"
proof -
  have "mc_inv (length items) Q (fold (worker_loop items fs) [0 ..< workerCount limit (length items)]
           \<lparr>mc_next = 0, mc_results = replicate (length items) None,
            mc_workers = replicate (workerCount limit (length items)) Idle, mc_user = u\<rparr>)"
    by (rule mc_init_fold[THEN conjunct1]) (use assms in \<open>auto simp: fn_post_def\<close>)
  then show ?thesis by (simp add: mc_init_def)
qed

lemma mc_init_no_idle: "Idle \<notin> set (mc_workers (mc_init items limit fs u))"
proof -
  have "\<forall>w < workerCount limit (length items).
      mc_workers (fold (worker_loop items fs) [0 ..< workerCount limit (length items)]
           \<lparr>mc_next = 0, mc_results = replicate (length items) None,
            mc_workers = replicate (workerCount limit (length items)) Idle, mc_user = u\<rparr>) ! w \<noteq> Idle"
    by (rule mc_init_fold[where Q = "\<lambda>_ _. True", THEN conjunct2, THEN conjunct2]) simp_all
  then have "\<forall>w < workerCount limit (length items). mc_workers (mc_init items limit fs u) ! w \<noteq> Idle"
    by (simp add: mc_init_def)
  then show ?thesis by (auto simp: in_set_conv_nth)
qed

lemma mc_reach_inv:
  assumes "fn_post items Q fs fr"
  shows "mc_inv (length items) Q (mc_reach items limit fs fr u sched)"
  unfolding mc_reach_def by (rule mc_run_inv[OF mc_init_inv[OF assms] assms])

lemma update_no_idle:
  "Idle \<notin> set ws \<Longrightarrow> x \<noteq> Idle \<Longrightarrow> Idle \<notin> set (ws[w := x])"
  using set_update_subset_insert[of ws w x] by auto

lemma worker_loop_no_idle:
  assumes "Idle \<notin> set (mc_workers st)"
  shows "Idle \<notin> set (mc_workers (worker_loop items fs w st))"
proof (cases "mc_next st < length items")
  case True
  have "(case fst (fs (items ! mc_next st) (mc_next st) (mc_user st)) of
      Some v \<Rightarrow> Resolved (mc_next st) v | None \<Rightarrow> Awaiting (mc_next st)) \<noteq> Idle"
    by (simp split: option.split)
  from update_no_idle[OF assms this] True show ?thesis
    by (simp add: worker_loop_def Let_def)
next
  case False
  from update_no_idle[OF assms, of Finished w] False show ?thesis
    by (simp add: worker_loop_def)
qed

lemma worker_resume_no_idle:
  assumes "Idle \<notin> set (mc_workers st)"
  shows "Idle \<notin> set (mc_workers (worker_resume items fs fr w st))"
proof (cases "w < length (mc_workers st)")
  case False
  with assms show ?thesis by (simp add: worker_resume_def)
next
  case True
  show ?thesis
  proof (cases "mc_workers st ! w")
    case (Awaiting i)
    have "Idle \<notin> set (mc_workers (st\<lparr>mc_results := (mc_results st)[i := Some (fst (fr (items ! i) i (mc_user st)))],
        mc_user := snd (fr (items ! i) i (mc_user st))\<rparr>))"
      using assms by simp
    from worker_loop_no_idle[OF this] Awaiting True show ?thesis
      by (simp add: worker_resume_def Let_def)
  next
    case (Resolved i v)
    have "Idle \<notin> set (mc_workers (st\<lparr>mc_results := (mc_results st)[i := Some v]\<rparr>))"
      using assms by simp
    from worker_loop_no_idle[OF this] Resolved True show ?thesis
      by (simp add: worker_resume_def)
  qed (use assms True in \<open>simp_all add: worker_resume_def\<close>)
qed

lemma mc_run_no_idle:
  "Idle \<notin> set (mc_workers st) \<Longrightarrow> Idle \<notin> set (mc_workers (mc_run items fs fr sched st))"
  unfolding mc_run_def
  by (induction sched arbitrary: st) (simp_all add: worker_resume_no_idle)

lemma mc_reach_no_idle: "Idle \<notin> set (mc_workers (mc_reach items limit fs fr u sched))"
  unfolding mc_reach_def by (rule mc_run_no_idle[OF mc_init_no_idle])

subsection \<open>Every run can be completed\<close>

fun wpending :: "'r wstate \<Rightarrow> nat" where
  "wpending Finished = 0"
| "wpending _ = 1"

definition mc_measure :: "nat \<Rightarrow> ('r, 'u) mc_state \<Rightarrow> nat" where
  "mc_measure n st = 2 * (n - mc_next st) + sum_list (map wpending (mc_workers st))"

lemma worker_loop_measure:
  assumes w: "w < length (mc_workers st)" and nf: "mc_workers st ! w \<noteq> Finished"
  shows "mc_measure (length items) (worker_loop items fs w st) < mc_measure (length items) st"
proof -
  have one: "wpending (mc_workers st ! w) = 1" using nf by (cases "mc_workers st ! w") simp_all
  have mem: "wpending (mc_workers st ! w) \<le> sum_list (map wpending (mc_workers st))"
    using elem_le_sum_list[of w "map wpending (mc_workers st)"] w by simp
  have upd: "\<And>x. sum_list (map wpending ((mc_workers st)[w := x])) =
      sum_list (map wpending (mc_workers st)) + wpending x - 1"
    using w one by (simp add: map_update sum_list_update)
  show ?thesis
  proof (cases "mc_next st < length items")
    case True
    have "wpending (case fst (fs (items ! mc_next st) (mc_next st) (mc_user st)) of
      Some v \<Rightarrow> Resolved (mc_next st) v | None \<Rightarrow> Awaiting (mc_next st)) = 1"
      by (simp split: option.split)
    with True upd one mem show ?thesis
      by (simp add: worker_loop_def Let_def mc_measure_def)
  next
    case False
    with upd[of Finished] one mem show ?thesis
      by (simp add: worker_loop_def mc_measure_def)
  qed
qed

lemma worker_resume_measure:
  assumes w: "w < length (mc_workers st)" and nf: "mc_workers st ! w \<noteq> Finished"
    and ni: "mc_workers st ! w \<noteq> Idle"
  shows "mc_measure (length items) (worker_resume items fs fr w st) < mc_measure (length items) st"
proof (cases "mc_workers st ! w")
  case (Awaiting i)
  define st2 where "st2 = st\<lparr>mc_results := (mc_results st)[i := Some (fst (fr (items ! i) i (mc_user st)))],
        mc_user := snd (fr (items ! i) i (mc_user st))\<rparr>"
  have "mc_measure (length items) (worker_loop items fs w st2) < mc_measure (length items) st2"
    by (rule worker_loop_measure) (use w nf in \<open>simp_all add: st2_def\<close>)
  moreover have "mc_measure (length items) st2 = mc_measure (length items) st"
    by (simp add: st2_def mc_measure_def)
  ultimately show ?thesis using Awaiting w by (simp add: worker_resume_def Let_def st2_def)
next
  case (Resolved i v)
  define st2 where "st2 = st\<lparr>mc_results := (mc_results st)[i := Some v]\<rparr>"
  have "mc_measure (length items) (worker_loop items fs w st2) < mc_measure (length items) st2"
    by (rule worker_loop_measure) (use w nf in \<open>simp_all add: st2_def\<close>)
  moreover have "mc_measure (length items) st2 = mc_measure (length items) st"
    by (simp add: st2_def mc_measure_def)
  ultimately show ?thesis using Resolved w by (simp add: worker_resume_def st2_def)
qed (use nf ni in simp_all)

lemma mc_can_finish:
  assumes "Idle \<notin> set (mc_workers st)"
  shows "\<exists>sched. mc_done (mc_run items fs fr sched st)"
  using assms
proof (induction "mc_measure (length items) st" arbitrary: st rule: less_induct)
  case less
  show ?case
  proof (cases "mc_done st")
    case True
    then have "mc_done (mc_run items fs fr [] st)" by (simp add: mc_run_def)
    then show ?thesis by blast
  next
    case False
    then obtain w where w: "w < length (mc_workers st)" and nf: "mc_workers st ! w \<noteq> Finished"
      by (auto simp: mc_done_def list_all_length)
    from less.prems w have ni: "mc_workers st ! w \<noteq> Idle" by (metis nth_mem)
    let ?st' = "worker_resume items fs fr w st"
    have "mc_measure (length items) ?st' < mc_measure (length items) st"
      by (rule worker_resume_measure[OF w nf ni])
    moreover have "Idle \<notin> set (mc_workers ?st')"
      by (rule worker_resume_no_idle[OF less.prems])
    ultimately obtain sched where "mc_done (mc_run items fs fr sched ?st')"
      using less.hyps by blast
    then have "mc_done (mc_run items fs fr (w # sched) st)" by (simp add: mc_run_def)
    then show ?thesis by blast
  qed
qed

lemma mc_run_append:
  "mc_run items fs fr (s1 @ s2) st = mc_run items fs fr s2 (mc_run items fs fr s1 st)"
  by (simp add: mc_run_def)

text \<open>When every worker has returned, every slot of \<open>results\<close> is filled.\<close>

lemma mc_done_results:
  assumes inv: "mc_inv n Q st" and dn: "mc_done st"
    and k: "0 < n \<Longrightarrow> 0 < length (mc_workers st)"
  shows "length (mc_results st) = n \<and> (\<forall>i < n. \<exists>v. mc_results st ! i = Some v \<and> Q i v)"
proof (intro conjI allI impI)
  show "length (mc_results st) = n" using inv by (simp add: mc_inv_def)
next
  fix i assume i: "i < n"
  then have "mc_workers st \<noteq> []" using k by auto
  then have "Finished \<in> set (mc_workers st)"
    using dn by (cases "mc_workers st") (auto simp: mc_done_def)
  with inv have nx: "mc_next st = n" by (simp add: mc_inv_def)
  have "\<not> (\<exists>w < length (mc_workers st). held (mc_workers st ! w) = Some i)"
    using dn by (auto simp: mc_done_def list_all_length)
  with inv i nx have "mc_results st ! i \<noteq> None" by (auto simp: mc_inv_def)
  then obtain v where v: "mc_results st ! i = Some v" by auto
  with inv i have "Q i v" by (auto simp: mc_inv_def)
  with v show "\<exists>v. mc_results st ! i = Some v \<and> Q i v" by blast
qed


lemma mc_reach_workers_length:
  "length (mc_workers (mc_reach items limit fs fr u sched)) = workerCount limit (length items)"
  by (simp add: mc_reach_def)

lemma mc_reach_append:
  "mc_reach items limit fs fr u (s1 @ s2) = mc_run items fs fr s2 (mc_reach items limit fs fr u s1)"
  by (simp add: mc_reach_def mc_run_append)

lemma fn_post_trivial: "fn_post items (\<lambda>_ _. True) fs fr"
  by (simp add: fn_post_def)

text \<open>
  The values \<open>mapConcurrent\<close> returns: one per item, each the value of the call for its
  own index (\<open>Q i\<close> is what is known of the value that \<open>fn(items[i], i)\<close> returns).
\<close>

lemma mapConcurrent_results:
  assumes post: "fn_post items Q fs fr"
    and ret: "mapConcurrent items limit fs fr u sched = Some (res, u')"
  shows "length res = length items \<and> (\<forall>i < length items. \<exists>v. res ! i = Some v \<and> Q i v)"
proof -
  let ?st = "mc_reach items limit fs fr u sched"
  from ret have dn: "mc_done ?st" and res: "res = mc_results ?st"
    by (auto simp: mapConcurrent_def mc_reach_def Let_def split: if_splits)
  have "length (mc_results ?st) = length items \<and>
      (\<forall>i < length items. \<exists>v. mc_results ?st ! i = Some v \<and> Q i v)"
  proof (rule mc_done_results[OF mc_reach_inv[OF post] dn])
    assume "0 < length items"
    then show "0 < length (mc_workers ?st)"
      by (simp add: mc_reach_workers_length workerCount_pos)
  qed
  with res show ?thesis by simp
qed

lemma mapConcurrent_can_return:
  "\<exists>more. mapConcurrent items limit fs fr u (sched @ more) \<noteq> None"
proof -
  obtain more where "mc_done (mc_run items fs fr more (mc_reach items limit fs fr u sched))"
    using mc_can_finish[OF mc_reach_no_idle, of items fs fr items limit fs fr u sched] by blast
  then have "mapConcurrent items limit fs fr u (sched @ more) \<noteq> None"
    by (simp add: mapConcurrent_def mc_reach_def mc_run_append Let_def)
  then show ?thesis by blast
qed

subsection \<open>The concurrency bound\<close>

text \<open>
  C7, as amended. A limit below 1 (zero, a negative number, a fraction below one, minus
  infinity) or NaN gives the effective bound 1, and at every point of every run at most
  one call of \<open>fn\<close> is in flight. A finite limit of at least 1 is rounded down: at most
  \<open>floor limit\<close> calls are in flight, which is at most \<open>limit\<close>. Whatever the limit, a
  run that returns has filled every slot of \<open>results\<close>, and every run can be continued
  to one that returns.
\<close>

theorem mapConcurrent_clamps_limit:
  "((limit = NaN \<or> limit = NegInf \<or> (\<exists>r. limit = Fin r \<and> r < 1)) \<longrightarrow>
      safeLimit limit = Fin 1 \<and> inflight (mc_reach items limit fn_start fn_resume u sched) \<le> 1) \<and>
   (\<forall>r. limit = Fin r \<and> 1 \<le> r \<longrightarrow>
      inflight (mc_reach items limit fn_start fn_resume u sched) \<le> nat \<lfloor>r\<rfloor> \<and> real (nat \<lfloor>r\<rfloor>) \<le> r) \<and>
   (\<forall>res u'. mapConcurrent items limit fn_start fn_resume u sched = Some (res, u') \<longrightarrow>
      length res = length items \<and> (\<forall>i < length items. res ! i \<noteq> None)) \<and>
   (\<exists>more. mapConcurrent items limit fn_start fn_resume u (sched @ more) \<noteq> None)"
proof (intro conjI allI impI)
  assume c: "limit = NaN \<or> limit = NegInf \<or> (\<exists>r. limit = Fin r \<and> r < 1)"
  then show "safeLimit limit = Fin 1" by (auto simp: safeLimit_eq)
  have "inflight (mc_reach items limit fn_start fn_resume u sched) \<le> workerCount limit (length items)"
    using inflight_le_workers[of "mc_reach items limit fn_start fn_resume u sched"]
    by (simp add: mc_reach_workers_length)
  also have "\<dots> \<le> 1" by (rule workerCount_clamped[OF c])
  finally show "inflight (mc_reach items limit fn_start fn_resume u sched) \<le> 1" .
next
  fix r assume r: "limit = Fin r \<and> 1 \<le> r"
  have "inflight (mc_reach items limit fn_start fn_resume u sched) \<le> workerCount limit (length items)"
    using inflight_le_workers[of "mc_reach items limit fn_start fn_resume u sched"]
    by (simp add: mc_reach_workers_length)
  also have "\<dots> \<le> nat \<lfloor>r\<rfloor>" using r workerCount_floor by blast
  finally show "inflight (mc_reach items limit fn_start fn_resume u sched) \<le> nat \<lfloor>r\<rfloor>" .
  from r show "real (nat \<lfloor>r\<rfloor>) \<le> r" by linarith
next
  fix res u' assume ret: "mapConcurrent items limit fn_start fn_resume u sched = Some (res, u')"
  from mapConcurrent_results[OF fn_post_trivial ret]
  show "length res = length items" by simp
next
  fix res u' i
  assume ret: "mapConcurrent items limit fn_start fn_resume u sched = Some (res, u')"
    and i: "i < length items"
  from mapConcurrent_results[OF fn_post_trivial ret] i
  show "res ! i \<noteq> None" by auto
next
  show "\<exists>more. mapConcurrent items limit fn_start fn_resume u (sched @ more) \<noteq> None"
    by (rule mapConcurrent_can_return)
qed

lemmas mc_eval = mc_reach_def mc_run_def mc_init_def worker_loop_def worker_resume_def
  mc_done_def Let_def inflight_def mapConcurrent_def

lemma workerCount_zero_3: "workerCount (Fin 0) (Suc (Suc (Suc 0))) = Suc 0"
  by (simp add: workerCount_def safeLimit_eq)

lemma workerCount_half_1: "workerCount (Fin (1/2)) (Suc 0) = Suc 0"
  by (simp add: workerCount_def safeLimit_eq)

text \<open>
  Witness: three items under the limit 0. After the first call has returned exactly one
  call is in flight, and the run \<open>[0, 0, 0]\<close> of the only worker returns all three
  values in order.
\<close>

theorem mapConcurrent_clamps_limit_witness:
  "safeLimit (Fin 0) = Fin 1 \<and>
   inflight (mc_reach [10, 20, 30 :: int] (Fin 0) (\<lambda>_ _ u. (None, u)) (\<lambda>x _ u. (2 * x, u)) () [0]) = 1 \<and>
   mapConcurrent [10, 20, 30 :: int] (Fin 0) (\<lambda>_ _ u. (None, u)) (\<lambda>x _ u. (2 * x, u)) () [0, 0, 0]
     = Some ([Some 20, Some 40, Some 60], ())"
  using mapConcurrent_clamps_limit[of "Fin 0" "[10, 20, 30 :: int]" "\<lambda>_ _ u. (None, u)"
      "\<lambda>x _ u. (2 * x, u)" "()" "[0, 0, 0]"]
  by (simp add: mc_eval workerCount_zero_3)

text \<open>
  C7 as stated fails for a positive limit below one: with \<open>limit = 0.5\<close> and one item,
  one call is in flight once \<open>mapConcurrent\<close> has started, which is more than \<open>limit\<close>.
\<close>

theorem mapConcurrent_fraction_counterexample:
  "0 < (1/2 :: real) \<and>
   \<not> real (inflight (mc_reach [()] (Fin (1/2)) (\<lambda>_ _ u. (None :: unit option, u))
       (\<lambda>_ _ u. ((), u)) () [])) \<le> 1/2"
  by (simp add: mc_eval workerCount_half_1)


section \<open>agent-management.ts: the management handlers\<close>

subsection \<open>sanitizeName\<close>

text \<open>
  \<^verbatim>\<open>
  export function sanitizeName(name: string): string {
    return name.toLowerCase().trim().replace(/\s+/g, "-").replace(/[^a-z0-9-]/g, "")
      .replace(/-+/g, "-").replace(/^-+|-+$/g, "");
  }
  \<close>
  A string is a list of characters with codes 0 to 255 (Latin-1); characters beyond
  that range are not modelled. On this range \<open>toLowerCase\<close> moves \<open>A-Z\<close> and the
  accented capitals \<open>0xC0-0xDE\<close> (but not the multiplication sign \<open>0xD7\<close>) up by 32, and
  the white space of \<open>trim\<close> and of \<open>\s\<close> is tab, line feed, vertical tab, form feed,
  carriage return, space and the no-break space.
\<close>

definition is_space :: "char \<Rightarrow> bool" where
  "is_space c = (of_char c \<in> {9, 10, 11, 12, 13, 32, 160 :: nat})"

definition js_lower :: "char \<Rightarrow> char" where
  "js_lower c =
     (let n = (of_char c :: nat)
      in if (65 \<le> n \<and> n \<le> 90) \<or> (192 \<le> n \<and> n \<le> 222 \<and> n \<noteq> 215)
         then char_of (n + 32) else c)"

definition is_hyphen :: "char \<Rightarrow> bool" where
  "is_hyphen c = (c = CHR ''-'')"

text \<open>The character class \<open>[a-z0-9-]\<close>.\<close>

definition allowed :: "char \<Rightarrow> bool" where
  "allowed c =
     (let n = (of_char c :: nat)
      in (97 \<le> n \<and> n \<le> 122) \<or> (48 \<le> n \<and> n \<le> 57) \<or> is_hyphen c)"

definition trim :: "string \<Rightarrow> string" where
  "trim s = rev (dropWhile is_space (rev (dropWhile is_space s)))"

text \<open>
  \<open>squeeze P False s\<close> is \<open>s.replace(/P+/g, "-")\<close>: every maximal run of characters of
  the class \<open>P\<close> becomes one hyphen (\<open>prev\<close> tells that the character before was in \<open>P\<close>).
\<close>

fun squeeze :: "(char \<Rightarrow> bool) \<Rightarrow> bool \<Rightarrow> string \<Rightarrow> string" where
  "squeeze P prev [] = []"
| "squeeze P prev (c # cs) =
     (if P c then (if prev then squeeze P True cs else CHR ''-'' # squeeze P True cs)
      else c # squeeze P False cs)"

text \<open>\<^verbatim>\<open>.replace(/^-+|-+$/g, "")\<close>\<close>

definition strip_hyphens :: "string \<Rightarrow> string" where
  "strip_hyphens s = rev (dropWhile is_hyphen (rev (dropWhile is_hyphen s)))"

definition sanitizeName :: "string \<Rightarrow> string" where
  "sanitizeName name =
     strip_hyphens (squeeze is_hyphen False (filter allowed
       (squeeze is_space False (trim (map js_lower name)))))"


subsection \<open>Properties of sanitizeName\<close>



















subsection \<open>Values and strings\<close>

text \<open>
  \<open>params.config\<close> has the schema type \<open>Any\<close>: a JSON value. An object is the list of
  its own properties, each key once.
\<close>

datatype jsval =
  JUndefined | JNull | JBool bool | JNum real | JStr string
  | JArr "jsval list" | JObj "(string \<times> jsval) list"

definition get_prop :: "(string \<times> jsval) list \<Rightarrow> string \<Rightarrow> jsval" where
  "get_prop obj k = (case map_of obj k of Some v \<Rightarrow> v | None \<Rightarrow> JUndefined)"

definition hasKey :: "(string \<times> jsval) list \<Rightarrow> string \<Rightarrow> bool" where
  "hasKey obj k = (map_of obj k \<noteq> None)"

text \<open>\<open>typeof v !== "string" || !v.trim()\<close>\<close>

fun not_nonempty_string :: "jsval \<Rightarrow> bool" where
  "not_nonempty_string (JStr s) = (trim s = [])"
| "not_nonempty_string _ = True"

fun str_of :: "jsval \<Rightarrow> string" where
  "str_of (JStr s) = s"
| "str_of _ = []"

text \<open>\<open>v === false || v === ""\<close>\<close>

definition false_or_empty :: "jsval \<Rightarrow> bool" where
  "false_or_empty v = (v = JBool False \<or> v = JStr [])"

abbreviation LF :: char where
  "LF \<equiv> CHR 0x0A"

abbreviation CR :: char where
  "CR \<equiv> CHR 0x0D"

definition nl :: string where
  "nl = [LF]"

definition quoted :: "string \<Rightarrow> string" where
  "quoted s = CHR 0x27 # s @ [CHR 0x27]"

text \<open>\<open>xs.join(sep)\<close> and \<open>s.split(sep)\<close> for a separator of one character.\<close>

fun join :: "string \<Rightarrow> string list \<Rightarrow> string" where
  "join sep [] = []"
| "join sep [x] = x"
| "join sep (x # y # ys) = x @ sep @ join sep (y # ys)"

fun split_on :: "char \<Rightarrow> string \<Rightarrow> string list" where
  "split_on sep [] = [[]]"
| "split_on sep (c # cs) =
     (if c = sep then [] # split_on sep cs
      else (case split_on sep cs of [] \<Rightarrow> [[c]] | w # ws \<Rightarrow> (c # w) # ws))"

text \<open>A number in a template string.\<close>

definition digit_char :: "nat \<Rightarrow> char" where
  "digit_char d = char_of (48 + d)"

function show_nat :: "nat \<Rightarrow> string" where
  "show_nat n = (if n < 10 then [digit_char n] else show_nat (n div 10) @ [digit_char (n mod 10)])"
  by pat_completeness auto
termination
  by (relation "measure id") auto

declare show_nat.simps [simp del]

definition or_none :: "string \<Rightarrow> string" where
  "or_none s = (if s = [] then ''none'' else s)"

text \<open>\<open>Array.prototype.sort\<close> with a comparison: a stable sort.\<close>

fun insort_by :: "('a \<Rightarrow> 'a \<Rightarrow> bool) \<Rightarrow> 'a \<Rightarrow> 'a list \<Rightarrow> 'a list" where
  "insort_by le x [] = [x]"
| "insort_by le x (y # ys) = (if le x y then x # y # ys else y # insort_by le x ys)"

definition sort_by :: "('a \<Rightarrow> 'a \<Rightarrow> bool) \<Rightarrow> 'a list \<Rightarrow> 'a list" where
  "sort_by le xs = foldr (insort_by le) xs []"

text \<open>\<open>[...new Set(xs)]\<close>: the first occurrence of each element.\<close>

definition uniq :: "'a list \<Rightarrow> 'a list" where
  "uniq xs = rev (remdups (rev xs))"

text \<open>\<open>path.join(dir, file)\<close> and \<open>path.dirname\<close>, on paths already normalized.\<close>

definition path_join :: "string \<Rightarrow> string \<Rightarrow> string" where
  "path_join dir file = dir @ ''/'' @ file"

definition path_dirname :: "string \<Rightarrow> string" where
  "path_dirname p = rev (drop 1 (dropWhile (\<lambda>c. c \<noteq> CHR ''/'') (rev p)))"

fun truthy :: "string option \<Rightarrow> bool" where
  "truthy (Some s) = (s \<noteq> [])"
| "truthy None = False"

fun opt_str :: "string option \<Rightarrow> string" where
  "opt_str (Some s) = s"
| "opt_str None = []"

fun opt_list :: "'a option \<Rightarrow> 'a list" where
  "opt_list None = []"
| "opt_list (Some x) = [x]"

fun opt_items :: "'a list option \<Rightarrow> 'a list" where
  "opt_items None = []"
| "opt_items (Some xs) = xs"

text \<open>\<open>xs.length ? xs : undefined\<close>\<close>

definition nonempty_or_undefined :: "'a list \<Rightarrow> 'a list option" where
  "nonempty_or_undefined xs = (if xs = [] then None else Some xs)"

text \<open>\<open>parseCsv\<close>: \<open>[...new Set(value.split(",").map((v) => v.trim()).filter(Boolean))]\<close>\<close>

definition parseCsv :: "string \<Rightarrow> string list" where
  "parseCsv v = uniq (filter (\<lambda>s. s \<noteq> []) (map trim (split_on CHR '','' v)))"

subsection \<open>Agent and chain definitions and their files\<close>

datatype source = User | Project

fun source_str :: "source \<Rightarrow> string" where
  "source_str User = ''user''"
| "source_str Project = ''project''"

text \<open>\<open>AgentConfig\<close>, \<open>ChainStepConfig\<close> and \<open>ChainConfig\<close> of agents.ts; an optional
  field is an \<open>option\<close>, a field of type \<open>T | false\<close> is \<open>Unset\<close>, \<open>IsFalse\<close> or a value.\<close>

record agent_config =
  a_name :: string
  a_description :: string
  a_tools :: "string list option"
  a_mcpDirectTools :: "string list option"
  a_model :: "string option"
  a_thinking :: "string option"
  a_systemPrompt :: string
  a_source :: source
  a_filePath :: string
  a_skills :: "string list option"
  a_output :: "string option"
  a_defaultReads :: "string list option"
  a_defaultProgress :: "bool option"
  a_interactive :: "bool option"
  a_extraFields :: "(string \<times> string) list option"

datatype 'a or_false = Unset | IsFalse | Val 'a

record chain_step =
  s_agent :: string
  s_task :: string
  s_output :: "string or_false"
  s_reads :: "string list or_false"
  s_model :: "string option"
  s_skills :: "string list or_false"
  s_progress :: "bool option"

record chain_config =
  c_name :: string
  c_description :: string
  c_source :: source
  c_filePath :: string
  c_steps :: "chain_step list"
  c_extraFields :: "(string \<times> string) list option"

text \<open>agent-serializer.ts: \<open>KNOWN_FIELDS\<close>, \<open>joinComma\<close> and \<open>serializeAgent\<close>.\<close>

definition KNOWN_FIELDS :: "string list" where
  "KNOWN_FIELDS = [''name'', ''description'', ''tools'', ''model'', ''thinking'', ''skill'', ''skills'',
     ''output'', ''defaultReads'', ''defaultProgress'', ''interactive'']"

definition joinComma :: "string list option \<Rightarrow> string option" where
  "joinComma values =
     (case values of None \<Rightarrow> None
      | Some vs \<Rightarrow> if vs = [] then None else Some (join '', '' vs))"

text \<open>The lines of the frontmatter between the description and the closing \<open>---\<close>.\<close>

definition agent_field_lines :: "agent_config \<Rightarrow> string list" where
  "agent_field_lines config =
     (case joinComma (Some (opt_items (a_tools config) @
                            map (\<lambda>t. ''mcp:'' @ t) (opt_items (a_mcpDirectTools config)))) of
        Some v \<Rightarrow> if v \<noteq> [] then [''tools: '' @ v] else []
      | None \<Rightarrow> []) @
     (if truthy (a_model config) then [''model: '' @ opt_str (a_model config)] else []) @
     (if truthy (a_thinking config) \<and> a_thinking config \<noteq> Some ''off''
      then [''thinking: '' @ opt_str (a_thinking config)] else []) @
     (case joinComma (a_skills config) of
        Some v \<Rightarrow> if v \<noteq> [] then [''skills: '' @ v] else []
      | None \<Rightarrow> []) @
     (if truthy (a_output config) then [''output: '' @ opt_str (a_output config)] else []) @
     (case joinComma (a_defaultReads config) of
        Some v \<Rightarrow> if v \<noteq> [] then [''defaultReads: '' @ v] else []
      | None \<Rightarrow> []) @
     (if a_defaultProgress config = Some True then [''defaultProgress: true''] else []) @
     (if a_interactive config = Some True then [''interactive: true''] else []) @
     map (\<lambda>(key, value). key @ '': '' @ value)
       (filter (\<lambda>(key, value). key \<notin> set KNOWN_FIELDS) (opt_items (a_extraFields config)))"

definition serializeAgent :: "agent_config \<Rightarrow> string" where
  "serializeAgent config =
     join nl ([''---'', ''name: '' @ a_name config, ''description: '' @ a_description config] @
              agent_field_lines config @ [''---'']) @
     nl @ nl @ a_systemPrompt config @ nl"

text \<open>chain-serializer.ts: \<open>serializeChain\<close>.\<close>

definition step_lines :: "chain_step \<Rightarrow> string list" where
  "step_lines step =
     [''## '' @ s_agent step] @
     (case s_output step of
        IsFalse \<Rightarrow> [''output: false'']
      | Val v \<Rightarrow> if v \<noteq> [] then [''output: '' @ v] else []
      | Unset \<Rightarrow> []) @
     (case s_reads step of
        IsFalse \<Rightarrow> [''reads: false'']
      | Val vs \<Rightarrow> if vs \<noteq> [] then [''reads: '' @ join '', '' vs] else []
      | Unset \<Rightarrow> []) @
     (if truthy (s_model step) then [''model: '' @ opt_str (s_model step)] else []) @
     (case s_skills step of
        IsFalse \<Rightarrow> [''skills: false'']
      | Val vs \<Rightarrow> if vs \<noteq> [] then [''skills: '' @ join '', '' vs] else []
      | Unset \<Rightarrow> []) @
     (case s_progress step of
        Some b \<Rightarrow> [''progress: '' @ (if b then ''true'' else ''false'')]
      | None \<Rightarrow> []) @
     [[], s_task step]"

fun steps_lines :: "chain_step list \<Rightarrow> string list" where
  "steps_lines [] = []"
| "steps_lines [step] = step_lines step"
| "steps_lines (step # later) = step_lines step @ [[]] @ steps_lines later"

definition serializeChain :: "chain_config \<Rightarrow> string" where
  "serializeChain config =
     join nl ([''---'', ''name: '' @ c_name config, ''description: '' @ c_description config] @
              map (\<lambda>(key, value). key @ '': '' @ value) (opt_items (c_extraFields config)) @
              [''---'', []] @ steps_lines (c_steps config)) @ nl"

subsection \<open>Reading a definition back: parseFrontmatter\<close>

text \<open>
  \<^verbatim>\<open>
  const normalized = content.replace(/\r\n/g, "\n");
  if (!normalized.startsWith("---")) return { frontmatter, body: normalized };
  const endIndex = normalized.indexOf("\n---", 3);
  if (endIndex === -1) return { frontmatter, body: normalized };
  const frontmatterBlock = normalized.slice(4, endIndex);
  for (const line of frontmatterBlock.split("\n")) {
    const match = line.match(/^([\w-]+):\s*(.*)$/);
    if (match) {
      let value = match[2].trim();
      if ((value.startsWith('"') && value.endsWith('"')) ||
          (value.startsWith("'") && value.endsWith("'"))) value = value.slice(1, -1);
      frontmatter[match[1]] = value;
    }
  }
  \<close>
  The same function stands in agents.ts and in chain-serializer.ts. The frontmatter
  is the list of the matches in the order of the lines; a later line with the same key
  replaces an earlier one.
\<close>

fun normalize_crlf :: "string \<Rightarrow> string" where
  "normalize_crlf [] = []"
| "normalize_crlf [c] = [c]"
| "normalize_crlf (c # d # cs) =
     (if c = CR \<and> d = LF then LF # normalize_crlf cs else c # normalize_crlf (d # cs))"

text \<open>\<open>s.indexOf(pat, i)\<close> is \<open>index_from pat (drop i s) i\<close> when \<open>i\<close> is at most the length.\<close>

fun index_from :: "string \<Rightarrow> string \<Rightarrow> nat \<Rightarrow> nat option" where
  "index_from pat [] i = (if pat = [] then Some i else None)"
| "index_from pat (c # cs) i = (if prefix pat (c # cs) then Some i else index_from pat cs (Suc i))"

definition indexOf :: "string \<Rightarrow> string \<Rightarrow> nat \<Rightarrow> nat option" where
  "indexOf s pat i = index_from pat (drop (min i (length s)) s) (min i (length s))"

text \<open>\<open>s.slice(a, b)\<close> for indices that are not negative.\<close>

definition slice :: "string \<Rightarrow> nat \<Rightarrow> nat \<Rightarrow> string" where
  "slice s a b = take (b - a) (drop a s)"

text \<open>The class \<open>[\w-]\<close>, and the characters \<open>.\<close> does not match (on Latin-1).\<close>

definition is_word :: "char \<Rightarrow> bool" where
  "is_word c =
     (let n = (of_char c :: nat)
      in (97 \<le> n \<and> n \<le> 122) \<or> (65 \<le> n \<and> n \<le> 90) \<or> (48 \<le> n \<and> n \<le> 57) \<or>
         c = CHR ''_'' \<or> c = CHR ''-'')"

definition is_line_terminator :: "char \<Rightarrow> bool" where
  "is_line_terminator c = (c = LF \<or> c = CR)"

definition unquote :: "string \<Rightarrow> string" where
  "unquote v =
     (if (prefix [CHR 0x22] v \<and> suffix [CHR 0x22] v) \<or> (prefix [CHR 0x27] v \<and> suffix [CHR 0x27] v)
      then take (length v - 2) (drop 1 v) else v)"

text \<open>\<open>line.match(/^([\w-]+):\s*(.*)$/)\<close>: the key and the value of a line, if it has them.\<close>

definition match_line :: "string \<Rightarrow> (string \<times> string) option" where
  "match_line line =
     (let key = takeWhile is_word line; after = dropWhile is_word line
      in if key \<noteq> [] \<and> prefix '':'' after
         then (let v = dropWhile is_space (drop 1 after)
               in if list_ex is_line_terminator v then None else Some (key, unquote (trim v)))
         else None)"

definition frontmatter_lines :: "string \<Rightarrow> string list" where
  "frontmatter_lines content =
     (let normalized = normalize_crlf content
      in if \<not> prefix ''---'' normalized then []
         else (case indexOf normalized (LF # ''---'') 3 of
                 None \<Rightarrow> []
               | Some endIndex \<Rightarrow> split_on LF (slice normalized 4 endIndex)))"

definition parseFrontmatter :: "string \<Rightarrow> (string \<times> string) list" where
  "parseFrontmatter content = concat (map (\<lambda>l. opt_list (match_line l)) (frontmatter_lines content))"

text \<open>\<open>frontmatter[key]\<close>: the value of the last line with that key.\<close>

definition frontmatter_get :: "string \<Rightarrow> string \<Rightarrow> string option" where
  "frontmatter_get content key = map_of (rev (parseFrontmatter content)) key"

text \<open>The name under which the store reads a definition file (\<open>frontmatter.name\<close>).\<close>

definition stored_name :: "string \<Rightarrow> string option" where
  "stored_name content = frontmatter_get content ''name''"

record fsys =
  dirs :: "string set"
  files :: "string \<Rightarrow> string option"

definition existsSync :: "fsys \<Rightarrow> string \<Rightarrow> bool" where
  "existsSync fs p = (files fs p \<noteq> None \<or> p \<in> dirs fs)"

record discovery =
  d_user :: "agent_config list"
  d_project :: "agent_config list"
  d_chains :: "chain_config list"
  d_userDir :: string
  d_projectDir :: "string option"

text \<open>
  What the handlers take from their context and from modules that are not modelled:
  the working directory, \<open>discoverAgentsAll(ctx.cwd)\<close> as a function of the file
  system, \<open>JSON.parse\<close> (\<open>None\<close> when it throws), the models of
  \<open>ctx.modelRegistry.getAvailable()\<close> as pairs of provider and id, the names of
  \<open>discoverAvailableSkills(cwd)\<close>, and the order of \<open>localeCompare\<close>.
\<close>

record menv =
  e_cwd :: string
  discoverAgentsAll :: "fsys \<Rightarrow> discovery"
  json_parse :: "string \<Rightarrow> jsval option"
  availableModels :: "(string \<times> string) list"
  availableSkills :: "fsys \<Rightarrow> string list"
  locale_le :: "string \<Rightarrow> string \<Rightarrow> bool"

record mparams =
  p_agent :: "string option"
  p_chainName :: "string option"
  p_agentScope :: "string option"
  p_config :: jsval

record mresult =
  isError :: bool
  r_text :: string

definition result :: "string \<Rightarrow> bool \<Rightarrow> mresult" where
  "result t e = \<lparr>isError = e, r_text = t\<rparr>"

definition configObject :: "(string \<Rightarrow> jsval option) \<Rightarrow> jsval \<Rightarrow> (string \<times> jsval) list option" where
  "configObject parse config =
     (case (case config of JStr s \<Rightarrow> parse s | v \<Rightarrow> Some v) of
        Some (JObj kvs) \<Rightarrow> Some kvs
      | _ \<Rightarrow> None)"

text \<open>\<open>asDisambiguationScope\<close> and \<open>normalizeListScope(...) ?? "both"\<close> (\<open>None\<close> is "both").\<close>

definition asDisambiguationScope :: "string option \<Rightarrow> source option" where
  "asDisambiguationScope scope =
     (if scope = Some ''user'' then Some User
      else if scope = Some ''project'' then Some Project else None)"

definition in_scope :: "source option \<Rightarrow> source \<Rightarrow> bool" where
  "in_scope scope src = (case scope of None \<Rightarrow> True | Some s \<Rightarrow> src = s)"

definition source_le :: "source \<Rightarrow> source \<Rightarrow> bool" where
  "source_le a b = (a = Project \<or> b = User)"

definition all_agents :: "discovery \<Rightarrow> agent_config list" where
  "all_agents d = d_user d @ d_project d"

definition availableAgentNames :: "menv \<Rightarrow> fsys \<Rightarrow> string list" where
  "availableAgentNames env fs =
     sort_by (locale_le env) (uniq (map a_name (all_agents (discoverAgentsAll env fs))))"

definition availableChainNames :: "menv \<Rightarrow> fsys \<Rightarrow> string list" where
  "availableChainNames env fs =
     sort_by (locale_le env) (uniq (map c_name (d_chains (discoverAgentsAll env fs))))"

definition findAgents :: "menv \<Rightarrow> fsys \<Rightarrow> string \<Rightarrow> source option \<Rightarrow> agent_config list" where
  "findAgents env fs name scope =
     (let raw = trim name; sanitized = sanitizeName raw
      in sort_by (\<lambda>a b. source_le (a_source a) (a_source b))
           (filter (\<lambda>a. in_scope scope (a_source a) \<and> (a_name a = raw \<or> a_name a = sanitized))
              (all_agents (discoverAgentsAll env fs))))"

definition findChains :: "menv \<Rightarrow> fsys \<Rightarrow> string \<Rightarrow> source option \<Rightarrow> chain_config list" where
  "findChains env fs name scope =
     (let raw = trim name; sanitized = sanitizeName raw
      in sort_by (\<lambda>a b. source_le (c_source a) (c_source b))
           (filter (\<lambda>c. in_scope scope (c_source c) \<and> (c_name c = raw \<or> c_name c = sanitized))
              (d_chains (discoverAgentsAll env fs))))"

definition nameExistsInScope :: "menv \<Rightarrow> fsys \<Rightarrow> source \<Rightarrow> string \<Rightarrow> string option \<Rightarrow> bool" where
  "nameExistsInScope env fs scope name excludePath =
     (let d = discoverAgentsAll env fs
      in list_ex (\<lambda>a. a_name a = name \<and> Some (a_filePath a) \<noteq> excludePath)
           (if scope = User then d_user d else d_project d) \<or>
         list_ex (\<lambda>c. c_source c = scope \<and> c_name c = name \<and> Some (c_filePath c) \<noteq> excludePath)
           (d_chains d))"

text \<open>\<open>unknownChainAgents\<close>, \<open>chainStepWarnings\<close>, \<open>modelWarning\<close> and \<open>skillsWarning\<close>.\<close>

definition unknownChainAgents :: "menv \<Rightarrow> fsys \<Rightarrow> chain_step list \<Rightarrow> string list" where
  "unknownChainAgents env fs steps =
     sort_by (locale_le env)
       (uniq (filter (\<lambda>a. a \<notin> set (map a_name (all_agents (discoverAgentsAll env fs))))
                (map s_agent steps)))"

definition model_known :: "menv \<Rightarrow> string \<Rightarrow> bool" where
  "model_known env model =
     list_ex (\<lambda>(provider, mid). provider @ ''/'' @ mid = model \<or> mid = model) (availableModels env)"

definition step_warnings :: "menv \<Rightarrow> fsys \<Rightarrow> nat \<Rightarrow> chain_step \<Rightarrow> string list" where
  "step_warnings env fs i s =
     (if truthy (s_model s) \<and> \<not> model_known env (opt_str (s_model s))
      then [''Warning: step '' @ show_nat (i + 1) @ '' ('' @ s_agent s @ ''): model '' @
            quoted (opt_str (s_model s)) @ '' is not in the current model registry.'']
      else []) @
     (case s_skills s of
        Val sk \<Rightarrow>
          (let missing = filter (\<lambda>k. k \<notin> set (availableSkills env fs)) sk
           in if sk \<noteq> [] \<and> missing \<noteq> []
              then [''Warning: step '' @ show_nat (i + 1) @ '' ('' @ s_agent s @
                    ''): skills not found: '' @ join '', '' missing @ ''.'']
              else [])
      | _ \<Rightarrow> [])"

definition chainStepWarnings :: "menv \<Rightarrow> fsys \<Rightarrow> chain_step list \<Rightarrow> string list" where
  "chainStepWarnings env fs steps =
     concat (map (\<lambda>(i, s). step_warnings env fs i s) (zip [0 ..< length steps] steps))"

definition modelWarning :: "menv \<Rightarrow> string option \<Rightarrow> string option" where
  "modelWarning env model =
     (if \<not> truthy model then None
      else if model_known env (opt_str model) then None
      else Some (''Warning: model '' @ quoted (opt_str model) @
                 '' is not in the current model registry.''))"

definition skillsWarning :: "menv \<Rightarrow> fsys \<Rightarrow> string list option \<Rightarrow> string option" where
  "skillsWarning env fs skills =
     (if opt_items skills = [] then None
      else (let missing = filter (\<lambda>s. s \<notin> set (availableSkills env fs)) (opt_items skills)
            in if missing \<noteq> [] then Some (''Warning: skills not found: '' @ join '', '' missing @ ''.'')
               else None))"

definition unknownAgentsWarning :: "menv \<Rightarrow> fsys \<Rightarrow> chain_step list \<Rightarrow> string list" where
  "unknownAgentsWarning env fs steps =
     (let missing = unknownChainAgents env fs steps
      in if missing \<noteq> []
         then [''Warning: chain steps reference unknown agents: '' @ join '', '' missing @ ''.'']
         else [])"

subsection \<open>Reading the configuration\<close>

text \<open>A sequence of checks, each of which can return with an error message.\<close>

definition checks :: "('c \<Rightarrow> 't \<Rightarrow> string + 't) list \<Rightarrow> 'c \<Rightarrow> 't \<Rightarrow> string + 't" where
  "checks fs cfg target =
     foldl (\<lambda>acc f. case acc of Inl e \<Rightarrow> Inl e | Inr t \<Rightarrow> f cfg t) (Inr target) fs"

text \<open>\<open>s.trim() || undefined\<close>\<close>

definition trimmed_or_undefined :: "string \<Rightarrow> string option" where
  "trimmed_or_undefined s = (if trim s = [] then None else Some (trim s))"

text \<open>\<open>parseTools\<close>: the plain tools and the \<open>mcp:\<close> tools of a comma-separated string.\<close>

definition parseTools :: "string \<Rightarrow> string list option \<times> string list option" where
  "parseTools raw =
     (let items = parseCsv raw;
          tools = filter (\<lambda>item. \<not> prefix ''mcp:'' item) items;
          mcpDirectTools = filter (\<lambda>direct. direct \<noteq> [])
                             (map (\<lambda>item. trim (drop 4 item)) (filter (prefix ''mcp:'') items))
      in (nonempty_or_undefined tools, nonempty_or_undefined mcpDirectTools))"

text \<open>\<open>applyAgentConfig\<close>, field by field in the order of the source.\<close>

definition apply_systemPrompt :: "(string \<times> jsval) list \<Rightarrow> agent_config \<Rightarrow> string + agent_config" where
  "apply_systemPrompt cfg target =
     (if hasKey cfg ''systemPrompt'' then
        (if false_or_empty (get_prop cfg ''systemPrompt'') then Inr (target\<lparr>a_systemPrompt := []\<rparr>)
         else (case get_prop cfg ''systemPrompt'' of
                 JStr s \<Rightarrow> Inr (target\<lparr>a_systemPrompt := s\<rparr>)
               | _ \<Rightarrow> Inl ''config.systemPrompt must be a string or false when provided.''))
      else Inr target)"

definition apply_model :: "(string \<times> jsval) list \<Rightarrow> agent_config \<Rightarrow> string + agent_config" where
  "apply_model cfg target =
     (if hasKey cfg ''model'' then
        (if false_or_empty (get_prop cfg ''model'') then Inr (target\<lparr>a_model := None\<rparr>)
         else (case get_prop cfg ''model'' of
                 JStr s \<Rightarrow> Inr (target\<lparr>a_model := trimmed_or_undefined s\<rparr>)
               | _ \<Rightarrow> Inl ''config.model must be a string or false when provided.''))
      else Inr target)"

definition apply_tools :: "(string \<times> jsval) list \<Rightarrow> agent_config \<Rightarrow> string + agent_config" where
  "apply_tools cfg target =
     (if hasKey cfg ''tools'' then
        (if false_or_empty (get_prop cfg ''tools'')
         then Inr (target\<lparr>a_tools := None, a_mcpDirectTools := None\<rparr>)
         else (case get_prop cfg ''tools'' of
                 JStr s \<Rightarrow> Inr (target\<lparr>a_tools := fst (parseTools s),
                                         a_mcpDirectTools := snd (parseTools s)\<rparr>)
               | _ \<Rightarrow> Inl ''config.tools must be a comma-separated string or false when provided.''))
      else Inr target)"

definition apply_skills :: "(string \<times> jsval) list \<Rightarrow> agent_config \<Rightarrow> string + agent_config" where
  "apply_skills cfg target =
     (if hasKey cfg ''skills'' then
        (if false_or_empty (get_prop cfg ''skills'') then Inr (target\<lparr>a_skills := None\<rparr>)
         else (case get_prop cfg ''skills'' of
                 JStr s \<Rightarrow> Inr (target\<lparr>a_skills := nonempty_or_undefined (parseCsv s)\<rparr>)
               | _ \<Rightarrow> Inl ''config.skills must be a comma-separated string or false when provided.''))
      else Inr target)"

definition apply_thinking :: "(string \<times> jsval) list \<Rightarrow> agent_config \<Rightarrow> string + agent_config" where
  "apply_thinking cfg target =
     (if hasKey cfg ''thinking'' then
        (if false_or_empty (get_prop cfg ''thinking'') then Inr (target\<lparr>a_thinking := None\<rparr>)
         else (case get_prop cfg ''thinking'' of
                 JStr s \<Rightarrow> Inr (target\<lparr>a_thinking := trimmed_or_undefined s\<rparr>)
               | _ \<Rightarrow> Inl ''config.thinking must be a string or false when provided.''))
      else Inr target)"

definition apply_output :: "(string \<times> jsval) list \<Rightarrow> agent_config \<Rightarrow> string + agent_config" where
  "apply_output cfg target =
     (if hasKey cfg ''output'' then
        (if false_or_empty (get_prop cfg ''output'') then Inr (target\<lparr>a_output := None\<rparr>)
         else (case get_prop cfg ''output'' of
                 JStr s \<Rightarrow> Inr (target\<lparr>a_output := Some s\<rparr>)
               | _ \<Rightarrow> Inl ''config.output must be a string or false when provided.''))
      else Inr target)"

definition apply_reads :: "(string \<times> jsval) list \<Rightarrow> agent_config \<Rightarrow> string + agent_config" where
  "apply_reads cfg target =
     (if hasKey cfg ''reads'' then
        (if false_or_empty (get_prop cfg ''reads'') then Inr (target\<lparr>a_defaultReads := None\<rparr>)
         else (case get_prop cfg ''reads'' of
                 JStr s \<Rightarrow> Inr (target\<lparr>a_defaultReads := nonempty_or_undefined (parseCsv s)\<rparr>)
               | _ \<Rightarrow> Inl ''config.reads must be a comma-separated string or false when provided.''))
      else Inr target)"

definition apply_progress :: "(string \<times> jsval) list \<Rightarrow> agent_config \<Rightarrow> string + agent_config" where
  "apply_progress cfg target =
     (if hasKey cfg ''progress'' then
        (case get_prop cfg ''progress'' of
           JBool b \<Rightarrow> Inr (target\<lparr>a_defaultProgress := Some b\<rparr>)
         | _ \<Rightarrow> Inl ''config.progress must be a boolean when provided.'')
      else Inr target)"

definition applyAgentConfig :: "agent_config \<Rightarrow> (string \<times> jsval) list \<Rightarrow> string + agent_config" where
  "applyAgentConfig target cfg =
     checks [apply_systemPrompt, apply_model, apply_tools, apply_skills, apply_thinking,
             apply_output, apply_reads, apply_progress] cfg target"

text \<open>\<open>parseStepList\<close>: \<open>i\<close> is the index of the step in \<open>config.steps\<close>.\<close>

definition string_items :: "jsval list \<Rightarrow> string list" where
  "string_items vs =
     filter (\<lambda>s. s \<noteq> [])
       (map trim (concat (map (\<lambda>v. case v of JStr s \<Rightarrow> [s] | _ \<Rightarrow> []) vs)))"

definition step_field :: "nat \<Rightarrow> string \<Rightarrow> string" where
  "step_field i name = ''config.steps['' @ show_nat i @ ''].'' @ name"

definition step_output :: "nat \<Rightarrow> (string \<times> jsval) list \<Rightarrow> chain_step \<Rightarrow> string + chain_step" where
  "step_output i s step =
     (if hasKey s ''output'' then
        (case get_prop s ''output'' of
           JBool False \<Rightarrow> Inr (step\<lparr>s_output := IsFalse\<rparr>)
         | JStr v \<Rightarrow> Inr (step\<lparr>s_output := Val v\<rparr>)
         | _ \<Rightarrow> Inl (step_field i ''output'' @ '' must be a string or false.''))
      else Inr step)"

definition step_reads :: "nat \<Rightarrow> (string \<times> jsval) list \<Rightarrow> chain_step \<Rightarrow> string + chain_step" where
  "step_reads i s step =
     (if hasKey s ''reads'' then
        (case get_prop s ''reads'' of
           JBool False \<Rightarrow> Inr (step\<lparr>s_reads := IsFalse\<rparr>)
         | JArr vs \<Rightarrow> Inr (step\<lparr>s_reads := Val (string_items vs)\<rparr>)
         | _ \<Rightarrow> Inl (step_field i ''reads'' @ '' must be an array or false.''))
      else Inr step)"

definition step_model :: "nat \<Rightarrow> (string \<times> jsval) list \<Rightarrow> chain_step \<Rightarrow> string + chain_step" where
  "step_model i s step =
     (if hasKey s ''model'' then
        (case get_prop s ''model'' of
           JStr v \<Rightarrow> Inr (step\<lparr>s_model := Some v\<rparr>)
         | _ \<Rightarrow> Inl (step_field i ''model'' @ '' must be a string.''))
      else Inr step)"

definition step_skills :: "nat \<Rightarrow> (string \<times> jsval) list \<Rightarrow> chain_step \<Rightarrow> string + chain_step" where
  "step_skills i s step =
     (if hasKey s ''skills'' then
        (case get_prop s ''skills'' of
           JBool False \<Rightarrow> Inr (step\<lparr>s_skills := IsFalse\<rparr>)
         | JArr vs \<Rightarrow> Inr (step\<lparr>s_skills := Val (string_items vs)\<rparr>)
         | _ \<Rightarrow> Inl (step_field i ''skills'' @ '' must be an array or false.''))
      else Inr step)"

definition step_progress :: "nat \<Rightarrow> (string \<times> jsval) list \<Rightarrow> chain_step \<Rightarrow> string + chain_step" where
  "step_progress i s step =
     (if hasKey s ''progress'' then
        (case get_prop s ''progress'' of
           JBool b \<Rightarrow> Inr (step\<lparr>s_progress := Some b\<rparr>)
         | _ \<Rightarrow> Inl (step_field i ''progress'' @ '' must be a boolean.''))
      else Inr step)"

definition parse_step :: "nat \<Rightarrow> jsval \<Rightarrow> string + chain_step" where
  "parse_step i item =
     (case item of
        JObj s \<Rightarrow>
          if not_nonempty_string (get_prop s ''agent'')
          then Inl (step_field i ''agent'' @ '' must be a non-empty string.'')
          else checks [step_output i, step_reads i, step_model i, step_skills i, step_progress i] s
                 \<lparr>s_agent = trim (str_of (get_prop s ''agent'')),
                  s_task = str_of (get_prop s ''task''),
                  s_output = Unset, s_reads = Unset, s_model = None, s_skills = Unset,
                  s_progress = None\<rparr>
      | _ \<Rightarrow> Inl (''config.steps['' @ show_nat i @ ''] must be an object.''))"

fun parse_steps :: "nat \<Rightarrow> jsval list \<Rightarrow> string + chain_step list" where
  "parse_steps i [] = Inr []"
| "parse_steps i (item # items) =
     (case parse_step i item of
        Inl e \<Rightarrow> Inl e
      | Inr step \<Rightarrow>
        (case parse_steps (Suc i) items of
           Inl e \<Rightarrow> Inl e
         | Inr steps \<Rightarrow> Inr (step # steps)))"

definition parseStepList :: "jsval \<Rightarrow> string + chain_step list" where
  "parseStepList raw =
     (case raw of
        JArr items \<Rightarrow>
          if items = [] then Inl ''config.steps must include at least one step.''
          else parse_steps 0 items
      | _ \<Rightarrow> Inl ''config.steps must be an array.'')"

subsection \<open>The handlers\<close>

text \<open>
  A handler takes the file system and returns its result with the file system it
  leaves. \<open>fs.mkdirSync\<close> adds the directory, \<open>fs.writeFileSync\<close> sets the text of a
  path, \<open>fs.renameSync\<close> and \<open>fs.unlinkSync\<close> move and remove the file of a path that
  discovery has read.

  \<open>resolveTarget\<close>: \<open>Kind\<close> and \<open>kind\<close> are the capitalized and the plain word for the
  kind of definition, \<open>available\<close> is \<open>availableNames(cwd, kind)\<close>.
\<close>

definition resolveTarget ::
  "string list \<Rightarrow> string \<Rightarrow> string \<Rightarrow> string \<Rightarrow> ('t \<Rightarrow> source) \<Rightarrow> ('t \<Rightarrow> string) \<Rightarrow> 't list \<Rightarrow>
   string option \<Rightarrow> mresult + 't" where
  "resolveTarget available Kind kind name src path matches scopeHint =
     (case matches of
        [] \<Rightarrow> Inl (result (Kind @ '' '' @ quoted name @ '' not found. Available: '' @
                 or_none (join '', '' available) @ ''.'') True)
      | [m] \<Rightarrow> Inr m
      | _ \<Rightarrow>
        (case asDisambiguationScope scopeHint of
           None \<Rightarrow> Inl (result (Kind @ '' '' @ quoted name @
                    '' exists in both scopes. Specify agentScope: '' @ quoted ''user'' @ '' or '' @
                    quoted ''project'' @ ''.'' @ nl @
                    join nl (map (\<lambda>m. source_str (src m) @ '': '' @ path m) matches)) True)
         | Some scope \<Rightarrow>
           (case filter (\<lambda>m. src m = scope) matches of
              [] \<Rightarrow> Inl (result (Kind @ '' '' @ quoted name @ '' not found in scope '' @
                       quoted (source_str scope) @ ''.'') True)
            | [m] \<Rightarrow> Inr m
            | scoped \<Rightarrow> Inl (result (''Multiple '' @ kind @ ''s named '' @ quoted name @
                       '' found in scope '' @ quoted (source_str scope) @ '': '' @
                       join '', '' (map path scoped)) True))))"

text \<open>
  \<open>renamePath\<close>: \<open>Inl\<close> its error, \<open>Inr\<close> the new path and the file system after
  \<open>fs.renameSync\<close>.
\<close>

definition renamePath ::
  "menv \<Rightarrow> fsys \<Rightarrow> bool \<Rightarrow> string \<Rightarrow> string \<Rightarrow> source \<Rightarrow> string + (string \<times> fsys)" where
  "renamePath env fs isChain currentPath newName scope =
     (if nameExistsInScope env fs scope newName (Some currentPath)
      then Inl (''Name '' @ quoted newName @ '' already exists in '' @ source_str scope @ '' scope.'')
      else
        (let filePath = path_join (path_dirname currentPath)
                          (newName @ (if isChain then ''.chain.md'' else ''.md''))
         in if existsSync fs filePath \<and> filePath \<noteq> currentPath
            then Inl (''File already exists at '' @ filePath @ '' but is not a valid '' @
                      (if isChain then ''chain'' else ''agent'') @
                      '' definition. Remove or rename it first.'')
            else Inr (filePath,
                      fs\<lparr>files := ((files fs)(currentPath := None))(filePath := files fs currentPath)\<rparr>)))"

definition formatAgentDetail :: "agent_config \<Rightarrow> string" where
  "formatAgentDetail agent =
     (let tools = opt_items (a_tools agent) @ map (\<lambda>t. ''mcp:'' @ t) (opt_items (a_mcpDirectTools agent))
      in join nl
           ([''Agent: '' @ a_name agent @ '' ('' @ source_str (a_source agent) @ '')'',
             ''Path: '' @ a_filePath agent,
             ''Description: '' @ a_description agent] @
            (if truthy (a_model agent) then [''Model: '' @ opt_str (a_model agent)] else []) @
            (if tools \<noteq> [] then [''Tools: '' @ join '', '' tools] else []) @
            (if opt_items (a_skills agent) \<noteq> []
             then [''Skills: '' @ join '', '' (opt_items (a_skills agent))] else []) @
            (if truthy (a_thinking agent) then [''Thinking: '' @ opt_str (a_thinking agent)] else []) @
            (if truthy (a_output agent) then [''Output: '' @ opt_str (a_output agent)] else []) @
            (if opt_items (a_defaultReads agent) \<noteq> []
             then [''Reads: '' @ join '', '' (opt_items (a_defaultReads agent))] else []) @
            (if a_defaultProgress agent = Some True then [''Progress: true''] else []) @
            (if trim (a_systemPrompt agent) \<noteq> []
             then [[], ''System Prompt:'', a_systemPrompt agent] else [])))"

definition step_detail :: "nat \<Rightarrow> chain_step \<Rightarrow> string list" where
  "step_detail i s =
     [show_nat (i + 1) @ ''. '' @ s_agent s] @
     (if trim (s_task s) \<noteq> [] then [''   Task: '' @ s_task s] else []) @
     (case s_output s of
        IsFalse \<Rightarrow> [''   Output: false'']
      | Val v \<Rightarrow> if v \<noteq> [] then [''   Output: '' @ v] else []
      | Unset \<Rightarrow> []) @
     (case s_reads s of
        IsFalse \<Rightarrow> [''   Reads: false'']
      | Val vs \<Rightarrow> if vs \<noteq> [] then [''   Reads: '' @ join '', '' vs] else []
      | Unset \<Rightarrow> []) @
     (if truthy (s_model s) then [''   Model: '' @ opt_str (s_model s)] else []) @
     (case s_skills s of
        IsFalse \<Rightarrow> [''   Skills: false'']
      | Val vs \<Rightarrow> if vs \<noteq> [] then [''   Skills: '' @ join '', '' vs] else []
      | Unset \<Rightarrow> []) @
     (case s_progress s of
        Some b \<Rightarrow> [''   Progress: '' @ (if b then ''true'' else ''false'')]
      | None \<Rightarrow> [])"

definition formatChainDetail :: "chain_config \<Rightarrow> string" where
  "formatChainDetail chain =
     join nl
       ([''Chain: '' @ c_name chain @ '' ('' @ source_str (c_source chain) @ '')'',
         ''Path: '' @ c_filePath chain,
         ''Description: '' @ c_description chain, [], ''Steps:''] @
        concat (map (\<lambda>(i, s). step_detail i s) (zip [0 ..< length (c_steps chain)] (c_steps chain))))"

definition handleList :: "menv \<Rightarrow> mparams \<Rightarrow> fsys \<Rightarrow> mresult \<times> fsys" where
  "handleList env params fs =
     (let scope = asDisambiguationScope (p_agentScope params);
          d = discoverAgentsAll env fs;
          agents = sort_by (\<lambda>a b. locale_le env (a_name a) (a_name b))
                     (filter (\<lambda>a. in_scope scope (a_source a)) (all_agents d));
          chains = sort_by (\<lambda>a b. locale_le env (c_name a) (c_name b))
                     (filter (\<lambda>c. in_scope scope (c_source c)) (d_chains d));
          ls = [''Agents:''] @
               (if agents \<noteq> []
                then map (\<lambda>a. ''- '' @ a_name a @ '' ('' @ source_str (a_source a) @ ''): '' @
                               a_description a) agents
                else [''- (none)'']) @
               [[], ''Chains:''] @
               (if chains \<noteq> []
                then map (\<lambda>c. ''- '' @ c_name c @ '' ('' @ source_str (c_source c) @ ''): '' @
                               c_description c) chains
                else [''- (none)''])
      in (result (join nl ls) False, fs))"

definition handleGet :: "menv \<Rightarrow> mparams \<Rightarrow> fsys \<Rightarrow> mresult \<times> fsys" where
  "handleGet env params fs =
     (if \<not> truthy (p_agent params) \<and> \<not> truthy (p_chainName params)
      then (result (''Specify '' @ quoted ''agent'' @ '' or '' @ quoted ''chainName'' @ '' for get.'') True, fs)
      else
        (let hasBoth = (truthy (p_agent params) \<and> truthy (p_chainName params));
             am = findAgents env fs (opt_str (p_agent params)) None;
             amsg = ''Agent '' @ quoted (opt_str (p_agent params)) @ '' not found. Available: '' @
                    or_none (join '', '' (availableAgentNames env fs)) @ ''.'';
             cm = findChains env fs (opt_str (p_chainName params)) None;
             cmsg = ''Chain '' @ quoted (opt_str (p_chainName params)) @ '' not found. Available: '' @
                    or_none (join '', '' (availableChainNames env fs)) @ ''.''
         in if truthy (p_agent params) \<and> am = [] \<and> \<not> hasBoth then (result amsg True, fs)
            else if truthy (p_chainName params) \<and> cm = [] \<and> \<not> hasBoth then (result cmsg True, fs)
            else
              (let ablocks = (if truthy (p_agent params)
                              then (if am = [] then [amsg] else map formatAgentDetail am)
                              else []);
                   cblocks = (if truthy (p_chainName params)
                              then (if cm = [] then [cmsg] else map formatChainDetail cm)
                              else []);
                   anyFound = ((truthy (p_agent params) \<and> am \<noteq> []) \<or>
                               (truthy (p_chainName params) \<and> cm \<noteq> []))
               in (result (join (nl @ nl) (ablocks @ cblocks)) (\<not> anyFound), fs))))"

text \<open>The agent that \<open>handleCreate\<close> starts from, before \<open>applyAgentConfig\<close>.\<close>

definition new_agent :: "string \<Rightarrow> string \<Rightarrow> source \<Rightarrow> string \<Rightarrow> agent_config" where
  "new_agent name description scope targetPath =
     \<lparr>a_name = name, a_description = description, a_tools = None, a_mcpDirectTools = None,
      a_model = None, a_thinking = None, a_systemPrompt = [], a_source = scope,
      a_filePath = targetPath, a_skills = None, a_output = None, a_defaultReads = None,
      a_defaultProgress = None, a_interactive = None, a_extraFields = None\<rparr>"

definition handleCreate :: "menv \<Rightarrow> mparams \<Rightarrow> fsys \<Rightarrow> mresult \<times> fsys" where
  "handleCreate env params fs =
     (case configObject (json_parse env) (p_config params) of
        None \<Rightarrow> (result ''config required for create.'' True, fs)
      | Some cfg \<Rightarrow>
        if not_nonempty_string (get_prop cfg ''name'')
        then (result ''config.name is required and must be a non-empty string.'' True, fs)
        else if not_nonempty_string (get_prop cfg ''description'')
        then (result ''config.description is required and must be a non-empty string.'' True, fs)
        else
          (let name = sanitizeName (str_of (get_prop cfg ''name''))
           in if name = []
              then (result ''config.name is invalid after sanitization. Use letters, numbers, spaces, or hyphens.'' True, fs)
              else
                (let scopeRaw = (case get_prop cfg ''scope'' of
                                   JUndefined \<Rightarrow> JStr ''user'' | JNull \<Rightarrow> JStr ''user'' | v \<Rightarrow> v)
                 in if scopeRaw \<noteq> JStr ''user'' \<and> scopeRaw \<noteq> JStr ''project''
                    then (result (''config.scope must be '' @ quoted ''user'' @ '' or '' @
                                  quoted ''project'' @ ''.'') True, fs)
                    else
                      (let scope = (if scopeRaw = JStr ''user'' then User else Project);
                           isChain = hasKey cfg ''steps'';
                           d = discoverAgentsAll env fs;
                           targetDir = (if scope = User then d_userDir d
                                        else (case d_projectDir d of
                                                Some pd \<Rightarrow> pd
                                              | None \<Rightarrow> path_join (path_join (e_cwd env) ''.pi'') ''agents''));
                           fs1 = fs\<lparr>dirs := insert targetDir (dirs fs)\<rparr>
                       in if nameExistsInScope env fs1 scope name None
                          then (result (''Name '' @ quoted name @ '' already exists in '' @
                                        source_str scope @ '' scope. Use update instead.'') True, fs1)
                          else
                            (let targetPath = path_join targetDir
                                                (name @ (if isChain then ''.chain.md'' else ''.md''))
                             in if existsSync fs1 targetPath
                                then (result (''File already exists at '' @ targetPath @
                                              '' but is not a valid '' @
                                              (if isChain then ''chain'' else ''agent'') @
                                              '' definition. Remove or rename it first.'') True, fs1)
                                else if isChain then
                                  (case parseStepList (get_prop cfg ''steps'') of
                                     Inl e \<Rightarrow> (result e True, fs1)
                                   | Inr steps \<Rightarrow>
                                     (let chain = \<lparr>c_name = name,
                                                    c_description = trim (str_of (get_prop cfg ''description'')),
                                                    c_source = scope, c_filePath = targetPath,
                                                    c_steps = steps, c_extraFields = None\<rparr>;
                                          fs2 = fs1\<lparr>files := (files fs1)(targetPath \<mapsto> serializeChain chain)\<rparr>
                                      in (result (join nl ((''Created chain '' @ quoted name @ '' at '' @
                                                            targetPath @ ''.'') #
                                                           unknownAgentsWarning env fs2 steps @
                                                           chainStepWarnings env fs2 steps)) False, fs2)))
                                else
                                  (case applyAgentConfig
                                          (new_agent name (trim (str_of (get_prop cfg ''description'')))
                                             scope targetPath) cfg of
                                     Inl e \<Rightarrow> (result e True, fs1)
                                   | Inr agent \<Rightarrow>
                                     (let warnings = opt_list (modelWarning env (a_model agent)) @
                                                     opt_list (skillsWarning env fs1 (a_skills agent));
                                          fs2 = fs1\<lparr>files := (files fs1)(targetPath \<mapsto> serializeAgent agent)\<rparr>
                                      in (result (join nl ((''Created agent '' @ quoted name @ '' at '' @
                                                            targetPath @ ''.'') # warnings)) False,
                                          fs2))))))))"

text \<open>
  \<open>handleUpdate\<close>. The checks on \<open>config.name\<close> and \<open>config.description\<close>, the
  sanitization and \<open>applyAgentConfig\<close> (\<open>parseStepList\<close> for a chain) come first; the
  rename and the write come last.
\<close>

definition handleUpdate :: "menv \<Rightarrow> mparams \<Rightarrow> fsys \<Rightarrow> mresult \<times> fsys" where
  "handleUpdate env params fs =
     (if \<not> truthy (p_agent params) \<and> \<not> truthy (p_chainName params)
      then (result (''Specify '' @ quoted ''agent'' @ '' or '' @ quoted ''chainName'' @ '' for update.'') True, fs)
      else if truthy (p_agent params) \<and> truthy (p_chainName params)
      then (result (''Specify either '' @ quoted ''agent'' @ '' or '' @ quoted ''chainName'' @ '', not both.'') True, fs)
      else
        (case configObject (json_parse env) (p_config params) of
           None \<Rightarrow> (result ''config required for update.'' True, fs)
         | Some cfg \<Rightarrow>
           if truthy (p_agent params) then
             (case resolveTarget (availableAgentNames env fs) ''Agent'' ''agent'' (opt_str (p_agent params))
                     a_source a_filePath
                     (findAgents env fs (opt_str (p_agent params))
                        (asDisambiguationScope (p_agentScope params)))
                     (p_agentScope params) of
                Inl r \<Rightarrow> (r, fs)
              | Inr target \<Rightarrow>
                if hasKey cfg ''name'' \<and> not_nonempty_string (get_prop cfg ''name'')
                then (result ''config.name must be a non-empty string when provided.'' True, fs)
                else if hasKey cfg ''description'' \<and> not_nonempty_string (get_prop cfg ''description'')
                then (result ''config.description must be a non-empty string when provided.'' True, fs)
                else
                  (let newName = (if hasKey cfg ''name''
                                  then Some (sanitizeName (str_of (get_prop cfg ''name''))) else None)
                   in if newName = Some []
                      then (result ''config.name is invalid after sanitization.'' True, fs)
                      else
                        (case applyAgentConfig target cfg of
                           Inl e \<Rightarrow> (result e True, fs)
                         | Inr applied \<Rightarrow>
                           (let oldName = a_name target;
                                updated = applied\<lparr>
                                  a_name := (case newName of Some n \<Rightarrow> n | None \<Rightarrow> a_name applied),
                                  a_description := (if hasKey cfg ''description''
                                                    then trim (str_of (get_prop cfg ''description''))
                                                    else a_description applied)\<rparr>;
                                warnings = (if hasKey cfg ''model''
                                            then opt_list (modelWarning env (a_model updated)) else []) @
                                           (if hasKey cfg ''skills''
                                            then opt_list (skillsWarning env fs (a_skills updated)) else [])
                            in if a_name updated \<noteq> oldName then
                                 (case renamePath env fs False (a_filePath target) (a_name updated)
                                         (a_source target) of
                                    Inl e \<Rightarrow> (result e True, fs)
                                  | Inr (newPath, fs1) \<Rightarrow>
                                    (let fs2 = fs1\<lparr>files := (files fs1)
                                                 (newPath \<mapsto> serializeAgent (updated\<lparr>a_filePath := newPath\<rparr>))\<rparr>;
                                         refs = map (\<lambda>c. c_name c @ '' ('' @ source_str (c_source c) @ '')'')
                                                  (filter (\<lambda>c. list_ex (\<lambda>st. s_agent st = oldName) (c_steps c))
                                                     (d_chains (discoverAgentsAll env fs2)));
                                         refWarning = (if refs \<noteq> []
                                                       then [''Warning: chains still reference '' @
                                                             quoted oldName @ '': '' @ join '', '' refs @ ''.'']
                                                       else [])
                                     in (result (join nl ((''Updated agent '' @ quoted oldName @ '' to '' @
                                                           quoted (a_name updated) @ '' at '' @ newPath @ ''.'') #
                                                          warnings @ refWarning)) False, fs2)))
                               else
                                 (let fs2 = fs\<lparr>files := (files fs)
                                              (a_filePath updated \<mapsto> serializeAgent updated)\<rparr>
                                  in (result (join nl ((''Updated agent '' @ quoted (a_name updated) @
                                                        '' at '' @ a_filePath updated @ ''.'') # warnings))
                                        False, fs2))))))
           else
             (case resolveTarget (availableChainNames env fs) ''Chain'' ''chain'' (opt_str (p_chainName params))
                     c_source c_filePath
                     (findChains env fs (opt_str (p_chainName params))
                        (asDisambiguationScope (p_agentScope params)))
                     (p_agentScope params) of
                Inl r \<Rightarrow> (r, fs)
              | Inr target \<Rightarrow>
                if hasKey cfg ''name'' \<and> not_nonempty_string (get_prop cfg ''name'')
                then (result ''config.name must be a non-empty string when provided.'' True, fs)
                else if hasKey cfg ''description'' \<and> not_nonempty_string (get_prop cfg ''description'')
                then (result ''config.description must be a non-empty string when provided.'' True, fs)
                else
                  (let newName = (if hasKey cfg ''name''
                                  then Some (sanitizeName (str_of (get_prop cfg ''name''))) else None)
                   in if newName = Some []
                      then (result ''config.name is invalid after sanitization.'' True, fs)
                      else
                        (case (if hasKey cfg ''steps''
                               then map_sum id Some (parseStepList (get_prop cfg ''steps''))
                               else Inr None) of
                           Inl e \<Rightarrow> (result e True, fs)
                         | Inr parsedSteps \<Rightarrow>
                           (let oldName = c_name target;
                                updated = target\<lparr>
                                  c_name := (case newName of Some n \<Rightarrow> n | None \<Rightarrow> c_name target),
                                  c_description := (if hasKey cfg ''description''
                                                    then trim (str_of (get_prop cfg ''description''))
                                                    else c_description target),
                                  c_steps := (case parsedSteps of Some ps \<Rightarrow> ps | None \<Rightarrow> c_steps target)\<rparr>;
                                warnings = (case parsedSteps of
                                              Some ps \<Rightarrow> unknownAgentsWarning env fs ps @
                                                         chainStepWarnings env fs ps
                                            | None \<Rightarrow> [])
                            in if c_name updated \<noteq> oldName then
                                 (case renamePath env fs True (c_filePath target) (c_name updated)
                                         (c_source target) of
                                    Inl e \<Rightarrow> (result e True, fs)
                                  | Inr (newPath, fs1) \<Rightarrow>
                                    (let fs2 = fs1\<lparr>files := (files fs1)
                                                 (newPath \<mapsto> serializeChain (updated\<lparr>c_filePath := newPath\<rparr>))\<rparr>
                                     in (result (join nl ((''Updated chain '' @ quoted oldName @ '' to '' @
                                                           quoted (c_name updated) @ '' at '' @ newPath @ ''.'') #
                                                          warnings)) False, fs2)))
                               else
                                 (let fs2 = fs\<lparr>files := (files fs)
                                              (c_filePath updated \<mapsto> serializeChain updated)\<rparr>
                                  in (result (join nl ((''Updated chain '' @ quoted (c_name updated) @
                                                        '' at '' @ c_filePath updated @ ''.'') # warnings))
                                        False, fs2))))))))"

definition handleDelete :: "menv \<Rightarrow> mparams \<Rightarrow> fsys \<Rightarrow> mresult \<times> fsys" where
  "handleDelete env params fs =
     (if \<not> truthy (p_agent params) \<and> \<not> truthy (p_chainName params)
      then (result (''Specify '' @ quoted ''agent'' @ '' or '' @ quoted ''chainName'' @ '' for delete.'') True, fs)
      else if truthy (p_agent params) \<and> truthy (p_chainName params)
      then (result (''Specify either '' @ quoted ''agent'' @ '' or '' @ quoted ''chainName'' @ '', not both.'') True, fs)
      else if truthy (p_agent params) then
        (case resolveTarget (availableAgentNames env fs) ''Agent'' ''agent'' (opt_str (p_agent params))
                a_source a_filePath
                (findAgents env fs (opt_str (p_agent params))
                   (asDisambiguationScope (p_agentScope params)))
                (p_agentScope params) of
           Inl r \<Rightarrow> (r, fs)
         | Inr target \<Rightarrow>
           (let fs1 = fs\<lparr>files := (files fs)(a_filePath target := None)\<rparr>;
                refs = map (\<lambda>c. c_name c @ '' ('' @ source_str (c_source c) @ '')'')
                         (filter (\<lambda>c. list_ex (\<lambda>st. s_agent st = a_name target) (c_steps c))
                            (d_chains (discoverAgentsAll env fs1)));
                ls = (''Deleted agent '' @ quoted (a_name target) @ '' at '' @ a_filePath target @ ''.'') #
                     (if refs \<noteq> []
                      then [''Warning: chains reference deleted agent '' @ quoted (a_name target) @
                            '': '' @ join '', '' refs @ ''.'']
                      else [])
            in (result (join nl ls) False, fs1)))
      else
        (case resolveTarget (availableChainNames env fs) ''Chain'' ''chain'' (opt_str (p_chainName params))
                c_source c_filePath
                (findChains env fs (opt_str (p_chainName params))
                   (asDisambiguationScope (p_agentScope params)))
                (p_agentScope params) of
           Inl r \<Rightarrow> (r, fs)
         | Inr target \<Rightarrow>
           (result (''Deleted chain '' @ quoted (c_name target) @ '' at '' @ c_filePath target @ ''.'') False,
            fs\<lparr>files := (files fs)(c_filePath target := None)\<rparr>)))"

definition handleManagementAction :: "menv \<Rightarrow> string \<Rightarrow> mparams \<Rightarrow> fsys \<Rightarrow> mresult \<times> fsys" where
  "handleManagementAction env action params fs =
     (if action = ''list'' then handleList env params fs
      else if action = ''get'' then handleGet env params fs
      else if action = ''create'' then handleCreate env params fs
      else if action = ''update'' then handleUpdate env params fs
      else if action = ''delete'' then handleDelete env params fs
      else (result (''Unknown action: '' @ action) True, fs))"

subsection \<open>The name line of a written definition\<close>



















text \<open>A later line of the frontmatter that sets \<open>name\<close> again.\<close>

definition sets_name :: "string \<Rightarrow> bool" where
  "sets_name line = (case match_line line of Some (key, value) \<Rightarrow> key = ''name'' | None \<Rightarrow> False)"

definition later_name_line :: "string \<Rightarrow> bool" where
  "later_name_line content = list_ex sets_name (tl (frontmatter_lines content))"







subsection \<open>What create and update write\<close>
















subsection \<open>A concrete store\<close>

text \<open>
  A context for concrete runs: the user directory \<open>/u/agents\<close> with the given agents, no
  project directory, no chains, no models and no skills.
\<close>

definition demo_env :: "agent_config list \<Rightarrow> menv" where
  "demo_env agents = \<lparr>e_cwd = ''/w'',
     discoverAgentsAll = (\<lambda>fs. \<lparr>d_user = agents, d_project = [], d_chains = [],
        d_userDir = ''/u/agents'', d_projectDir = None\<rparr>),
     json_parse = (\<lambda>_. None), availableModels = [], availableSkills = (\<lambda>_. []),
     locale_le = (\<lambda>a b. True)\<rparr>"

definition demo_scout :: agent_config where
  "demo_scout = new_agent ''scout'' ''finds things'' User ''/u/agents/scout.md''"

definition demo_fs :: fsys where
  "demo_fs = \<lparr>dirs = {}, files = (\<lambda>_. None)\<rparr>"


definition demo_params :: "string option \<Rightarrow> string \<Rightarrow> string \<Rightarrow> mparams" where
  "demo_params agent n d = \<lparr>p_agent = agent, p_chainName = None, p_agentScope = None,
     p_config = JObj [(''name'', JStr n), (''description'', JStr d)]\<rparr>"







text \<open>
  The values of a definition are written as they are. A description with a line feed
  followed by \<open>name: Evil Name\<close> makes a second name line, and \<open>parseFrontmatter\<close> keeps
  the last one: the definition created as \<open>ok\<close> is read back as \<open>Evil Name\<close>.
\<close>

lemma create_description_sets_name:
  "files (snd (handleCreate (demo_env []) (demo_params None ''ok'' (''d'' @ [LF] @ ''name: Evil Name''))
      demo_fs)) ''/u/agents/ok.md'' =
     Some (''---'' @ [LF] @ ''name: ok'' @ [LF] @ ''description: d'' @ [LF] @ ''name: Evil Name'' @ [LF] @
           ''---'' @ [LF, LF, LF]) \<and>
   later_name_line (''---'' @ [LF] @ ''name: ok'' @ [LF] @ ''description: d'' @ [LF] @
      ''name: Evil Name'' @ [LF] @ ''---'' @ [LF, LF, LF]) \<and>
   stored_name (''---'' @ [LF] @ ''name: ok'' @ [LF] @ ''description: d'' @ [LF] @
      ''name: Evil Name'' @ [LF] @ ''---'' @ [LF, LF, LF]) = Some ''Evil Name''"
  by code_simp

section \<open>The background registry: the result-file handler\<close>

text \<open>
  \<^verbatim>\<open>
  const handleResult = (file: string) => {
    const p = path.join(RESULTS_DIR, file);
    if (!fs.existsSync(p)) return;
    try {
      const data = JSON.parse(fs.readFileSync(p, "utf-8"));
      if (data.sessionId && data.sessionId !== currentSessionId) return;
      if (!data.sessionId && data.cwd && data.cwd !== baseCwd) return;
      const now = Date.now();
      const completionKey = buildCompletionKey(data, `result:${file}`);
      if (markSeenWithTtl(completionSeen, completionKey, now, completionTtlMs)) {
        try { fs.unlinkSync(p); } catch {}
        return;
      }
      pi.events.emit("subagent:complete", data);
      fs.unlinkSync(p);
    } catch {}
  };
  \<close>
  The registry's state: the files of the results directory (path to text), the map
  \<open>completionSeen\<close>, the events emitted so far, \<open>baseCwd\<close> and \<open>currentSessionId\<close> (a
  string or \<open>null\<close>). \<open>JSON.parse\<close>, \<open>buildCompletionKey\<close> and \<open>markSeenWithTtl\<close>
  (completion-dedupe.ts, which returns whether the key was seen and updates the map) are
  parameters, and so is whether a listener of \<open>emit\<close> throws.
\<close>

text \<open>The truth value of a JavaScript value, and \<open>data.key\<close> (\<open>None\<close>: a TypeError).\<close>

fun opt_val :: "jsval option \<Rightarrow> jsval" where
  "opt_val None = JUndefined"
| "opt_val (Some v) = v"

fun js_truthy :: "jsval \<Rightarrow> bool" where
  "js_truthy JUndefined = False"
| "js_truthy JNull = False"
| "js_truthy (JBool b) = b"
| "js_truthy (JNum r) = (r \<noteq> 0)"
| "js_truthy (JStr s) = (s \<noteq> [])"
| "js_truthy (JArr xs) = True"
| "js_truthy (JObj kvs) = True"

fun js_get :: "jsval \<Rightarrow> string \<Rightarrow> jsval option" where
  "js_get JUndefined k = None"
| "js_get JNull k = None"
| "js_get (JObj kvs) k = Some (get_prop kvs k)"
| "js_get v k = Some JUndefined"

record 'm registry =
  g_files :: "string \<Rightarrow> string option"
  g_completionSeen :: 'm
  g_emitted :: "jsval list"
  g_baseCwd :: string
  g_currentSessionId :: "string option"

record 'm registry_env =
  results_dir :: string
  parse_json :: "string \<Rightarrow> jsval option"
  buildCompletionKey :: "jsval \<Rightarrow> string \<Rightarrow> string"
  markSeenWithTtl :: "'m \<Rightarrow> string \<Rightarrow> nat \<Rightarrow> nat \<Rightarrow> bool \<times> 'm"
  listener_throws :: "jsval \<Rightarrow> bool"

definition completionTtlMs :: nat where
  "completionTtlMs = 10 * 60 * 1000"

definition session_value :: "string option \<Rightarrow> jsval" where
  "session_value sid = (case sid of Some s \<Rightarrow> JStr s | None \<Rightarrow> JNull)"

definition handleResult :: "'m registry_env \<Rightarrow> nat \<Rightarrow> string \<Rightarrow> 'm registry \<Rightarrow> 'm registry" where
  "handleResult env now file st =
     (let p = path_join (results_dir env) file
      in case g_files st p of
           None \<Rightarrow> st
         | Some content \<Rightarrow>
           (case parse_json env content of
              None \<Rightarrow> st
            | Some data \<Rightarrow>
              (case js_get data ''sessionId'' of
                 None \<Rightarrow> st
               | Some sid \<Rightarrow>
                 if js_truthy sid \<and> sid \<noteq> session_value (g_currentSessionId st) then st
                 else if \<not> js_truthy sid \<and> js_truthy (opt_val (js_get data ''cwd'')) \<and>
                         opt_val (js_get data ''cwd'') \<noteq> JStr (g_baseCwd st) then st
                 else
                   (let key = buildCompletionKey env data (''result:'' @ file);
                        seen = markSeenWithTtl env (g_completionSeen st) key now completionTtlMs
                    in if fst seen
                       then st\<lparr>g_completionSeen := snd seen, g_files := (g_files st)(p := None)\<rparr>
                       else if listener_throws env data
                       then st\<lparr>g_completionSeen := snd seen, g_emitted := g_emitted st @ [data]\<rparr>
                       else st\<lparr>g_completionSeen := snd seen, g_emitted := g_emitted st @ [data],
                               g_files := (g_files st)(p := None)\<rparr>))))"



text \<open>
  A result of another session: its \<open>sessionId\<close> is present (a truthy value, as the code
  tests it) and is not the current session id, or no \<open>sessionId\<close> is present and its
  \<open>cwd\<close> is present and is not the registry's base cwd.
\<close>

definition foreign_result :: "jsval \<Rightarrow> 'm registry \<Rightarrow> bool" where
  "foreign_result data st =
     (let sid = opt_val (js_get data ''sessionId''); cwd = opt_val (js_get data ''cwd'')
      in (js_truthy sid \<and> sid \<noteq> session_value (g_currentSessionId st)) \<or>
         (\<not> js_truthy sid \<and> js_truthy cwd \<and> cwd \<noteq> JStr (g_baseCwd st)))"

lemma handleResult_foreign:
  assumes "g_files st (path_join (results_dir env) file) = Some content"
    and "parse_json env content = Some data"
    and "foreign_result data st"
  shows "handleResult env now file st = st"
  using assms
  by (cases "js_get data ''sessionId''")
     (auto simp: handleResult_def foreign_result_def Let_def)

lemma handleResult_deletes:
  assumes "g_files (handleResult env now file st) q \<noteq> g_files st q"
  shows "q = path_join (results_dir env) file \<and> g_files (handleResult env now file st) q = None \<and>
     (\<exists>content data. g_files st q = Some content \<and> parse_json env content = Some data \<and>
        \<not> foreign_result data st \<and>
        (fst (markSeenWithTtl env (g_completionSeen st)
               (buildCompletionKey env data (''result:'' @ file)) now completionTtlMs) \<or>
         g_emitted (handleResult env now file st) = g_emitted st @ [data]))"
proof (cases "g_files st (path_join (results_dir env) file)")
  case None
  with assms show ?thesis by (simp add: handleResult_def)
next
  case (Some content)
  note content = this
  show ?thesis
  proof (cases "parse_json env content")
    case None
    with assms content show ?thesis by (simp add: handleResult_def)
  next
    case (Some data)
    note data = this
    show ?thesis
    proof (cases "js_get data ''sessionId''")
      case None
      with assms content data show ?thesis by (simp add: handleResult_def)
    next
      case (Some sid)
      show ?thesis
      proof (cases "foreign_result data st")
        case True
        from handleResult_foreign[OF content data True] assms show ?thesis by simp
      next
        case False
        with assms content data Some show ?thesis
          by (auto simp: handleResult_def foreign_result_def Let_def split: if_splits)
      qed
    qed
  qed
qed

text \<open>
  C10. When the handler reads a result of another session it changes nothing: no
  \<open>subagent:complete\<close> event is emitted and the file stays in the results directory. A
  file the handler removes is the result file it was called for, the result was not
  of another session, and it was suppressed as a duplicate or dispatched.
\<close>

theorem handleResult_keeps_foreign_results:
  "(\<forall>content data. g_files st (path_join (results_dir env) file) = Some content \<and>
        parse_json env content = Some data \<and> foreign_result data st \<longrightarrow>
      g_emitted (handleResult env now file st) = g_emitted st \<and>
      g_files (handleResult env now file st) = g_files st) \<and>
   (\<forall>q. g_files (handleResult env now file st) q \<noteq> g_files st q \<longrightarrow>
      q = path_join (results_dir env) file \<and> g_files (handleResult env now file st) q = None \<and>
      (\<exists>content data. g_files st q = Some content \<and> parse_json env content = Some data \<and>
         \<not> foreign_result data st \<and>
         (fst (markSeenWithTtl env (g_completionSeen st)
                (buildCompletionKey env data (''result:'' @ file)) now completionTtlMs) \<or>
          g_emitted (handleResult env now file st) = g_emitted st @ [data])))"
proof (intro conjI allI impI)
  fix content data
  assume "g_files st (path_join (results_dir env) file) = Some content \<and>
        parse_json env content = Some data \<and> foreign_result data st"
  then have "handleResult env now file st = st" using handleResult_foreign by blast
  then show "g_emitted (handleResult env now file st) = g_emitted st"
    "g_files (handleResult env now file st) = g_files st" by simp_all
next
  fix q assume a: "g_files (handleResult env now file st) q \<noteq> g_files st q"
  from handleResult_deletes[OF a]
  show "q = path_join (results_dir env) file" "g_files (handleResult env now file st) q = None"
    "\<exists>content data. g_files st q = Some content \<and> parse_json env content = Some data \<and>
         \<not> foreign_result data st \<and>
         (fst (markSeenWithTtl env (g_completionSeen st)
                (buildCompletionKey env data (''result:'' @ file)) now completionTtlMs) \<or>
          g_emitted (handleResult env now file st) = g_emitted st @ [data])"
    by blast+
qed

text \<open>
  A concrete registry: two result files, one of the current session \<open>s1\<close> and one of
  session \<open>s2\<close>; seen keys are kept in a list.
\<close>

definition demo_registry_env :: "string list registry_env" where
  "demo_registry_env = \<lparr>results_dir = ''/r'',
     parse_json = (\<lambda>t. if t = ''A'' then Some (JObj [(''id'', JStr ''a''), (''sessionId'', JStr ''s1'')])
                        else if t = ''B'' then Some (JObj [(''id'', JStr ''b''), (''sessionId'', JStr ''s2'')])
                        else if t = ''C'' then Some (JObj [(''id'', JStr ''c''), (''cwd'', JStr ''/other'')])
                        else None),
     buildCompletionKey = (\<lambda>d fallback. case js_get d ''id'' of Some (JStr i) \<Rightarrow> i | _ \<Rightarrow> fallback),
     markSeenWithTtl = (\<lambda>seen k now ttl. (k \<in> set seen, k # seen)),
     listener_throws = (\<lambda>_. False)\<rparr>"

definition demo_registry :: "string list registry" where
  "demo_registry = \<lparr>g_files = (\<lambda>p. if p = ''/r/a.json'' then Some ''A''
                                    else if p = ''/r/b.json'' then Some ''B''
                                    else if p = ''/r/c.json'' then Some ''C'' else None),
     g_completionSeen = [], g_emitted = [], g_baseCwd = ''/w'', g_currentSessionId = Some ''s1''\<rparr>"

lemmas reg_eval = handleResult_def demo_registry_def demo_registry_env_def path_join_def Let_def
  get_prop_def session_value_def foreign_result_def

lemma demo_registry_foreign:
  "g_files demo_registry (path_join (results_dir demo_registry_env) ''b.json'') = Some ''B'' \<and>
   parse_json demo_registry_env ''B'' = Some (JObj [(''id'', JStr ''b''), (''sessionId'', JStr ''s2'')]) \<and>
   foreign_result (JObj [(''id'', JStr ''b''), (''sessionId'', JStr ''s2'')]) demo_registry"
  "g_files demo_registry (path_join (results_dir demo_registry_env) ''c.json'') = Some ''C'' \<and>
   parse_json demo_registry_env ''C'' = Some (JObj [(''id'', JStr ''c''), (''cwd'', JStr ''/other'')]) \<and>
   foreign_result (JObj [(''id'', JStr ''c''), (''cwd'', JStr ''/other'')]) demo_registry"
  by (simp_all add: reg_eval)

lemma demo_registry_own:
  "g_files (handleResult demo_registry_env 0 ''a.json'' demo_registry) ''/r/a.json'' = None"
  "g_emitted (handleResult demo_registry_env 0 ''a.json'' demo_registry) =
     [JObj [(''id'', JStr ''a''), (''sessionId'', JStr ''s1'')]]"
  by (simp_all add: reg_eval)

text \<open>
  Witness: the results of session \<open>s2\<close> and of the other working directory stay and
  emit nothing; the result of the current session is dispatched and removed.
\<close>

theorem handleResult_keeps_foreign_results_witness:
  "g_emitted (handleResult demo_registry_env 0 ''b.json'' demo_registry) = g_emitted demo_registry \<and>
   g_files (handleResult demo_registry_env 0 ''b.json'' demo_registry) = g_files demo_registry \<and>
   g_emitted (handleResult demo_registry_env 0 ''c.json'' demo_registry) = g_emitted demo_registry \<and>
   g_files (handleResult demo_registry_env 0 ''c.json'' demo_registry) = g_files demo_registry \<and>
   g_files (handleResult demo_registry_env 0 ''a.json'' demo_registry) ''/r/a.json'' = None \<and>
   g_emitted (handleResult demo_registry_env 0 ''a.json'' demo_registry) =
     [JObj [(''id'', JStr ''a''), (''sessionId'', JStr ''s1'')]]"
proof -
  have b: "g_emitted (handleResult demo_registry_env 0 ''b.json'' demo_registry) = g_emitted demo_registry \<and>
      g_files (handleResult demo_registry_env 0 ''b.json'' demo_registry) = g_files demo_registry"
    using handleResult_keeps_foreign_results[of demo_registry demo_registry_env "''b.json''" 0,
        THEN conjunct1, rule_format, OF demo_registry_foreign(1)] .
  have c: "g_emitted (handleResult demo_registry_env 0 ''c.json'' demo_registry) = g_emitted demo_registry \<and>
      g_files (handleResult demo_registry_env 0 ''c.json'' demo_registry) = g_files demo_registry"
    using handleResult_keeps_foreign_results[of demo_registry demo_registry_env "''c.json''" 0,
        THEN conjunct1, rule_format, OF demo_registry_foreign(2)] .
  from b c demo_registry_own show ?thesis by simp
qed


section \<open>index.ts: the dispatcher\<close>

subsection \<open>Requests and results\<close>

text \<open>
  The parameters of the tool (\<open>SubagentParams\<close> of schemas.ts): the fields the
  management handlers read, and those that pick and shape an execution. A task of
  parallel mode has an agent and a task; a step of a chain is sequential, with an
  agent and maybe a task, or parallel, with tasks whose task text is optional.
\<close>

record task_item =
  k_agent :: string
  k_task :: string

record parallel_task =
  q_agent :: string
  q_task :: "string option"

datatype chain_item = SequentialStep string "string option" | ParallelStep "parallel_task list"

record xparams = mparams +
  p_action :: "string option"
  p_task :: "string option"
  p_chain :: "chain_item list option"
  p_tasks :: "task_item list option"
  p_async :: "bool option"
  p_clarify :: "bool option"

text \<open>
  Modelled from the spec: settings.ts, with \<open>isParallelStep\<close> and \<open>getStepAgents\<close>, is not
  among the source files. A parallel step is the item with the field \<open>parallel\<close>, and
  the agents of a step are the agents of its tasks, or its one agent, as
  \<open>executeAsyncChain\<close> (async-execution.ts) takes them.
\<close>

fun isParallelStep :: "chain_item \<Rightarrow> bool" where
  "isParallelStep (ParallelStep ts) = True"
| "isParallelStep (SequentialStep a t) = False"

fun getStepAgents :: "chain_item \<Rightarrow> string list" where
  "getStepAgents (ParallelStep ts) = map q_agent ts"
| "getStepAgents (SequentialStep a t) = [a]"

fun parallel_of :: "chain_item \<Rightarrow> parallel_task list" where
  "parallel_of (ParallelStep ts) = ts"
| "parallel_of (SequentialStep a t) = []"

text \<open>
  The result of one run (\<open>SingleResult\<close>): the agent, the exit code, the error, and
  the text \<open>r.truncation?.text || getFinalOutput(r.messages)\<close>. The result of the tool:
  its text, \<open>isError\<close> (absent is false), and the mode and the results of its details.
\<close>

record single_result =
  r_agent :: string
  r_exitCode :: int
  r_error :: "string option"
  r_output :: string

datatype mode = Management | Single | Parallel | Chain

record tool_result =
  t_text :: string
  t_isError :: bool
  t_mode :: mode
  t_results :: "single_result list"

definition error_result :: "string \<Rightarrow> mode \<Rightarrow> tool_result" where
  "error_result msg m = \<lparr>t_text = msg, t_isError = True, t_mode = m, t_results = []\<rparr>"

text \<open>\<open>result\<close> of agent-management.ts gives the details \<open>{ mode: "management", results: [] }\<close>.\<close>

definition of_management :: "mresult \<Rightarrow> tool_result" where
  "of_management r = \<lparr>t_text = r_text r, t_isError = isError r, t_mode = Management, t_results = []\<rparr>"

record depth_check =
  blocked :: bool
  depth :: nat
  maxDepth :: nat

text \<open>What the clarify dialog resolves to (\<open>ChainClarifyResult\<close>); the overrides of
  model and skills it carries go into the arguments of the runs only.\<close>

record clarify_result =
  confirmed :: bool
  templates :: "string list"
  runInBackground :: bool

text \<open>
  What \<open>execute\<close> takes from its context and from modules that are not modelled:
  the context of the management handlers; the value of \<open>checkSubagentDepth()\<close>
  (types.ts); \<open>discoverAgents(ctx.cwd, resolveExecutionAgentScope(params.agentScope)).agents\<close>
  as a function of the file system and the scope; \<open>asyncByDefault\<close>,
  \<open>isAsyncAvailable()\<close> and \<open>ctx.hasUI\<close>; what \<open>ctx.ui.custom\<close> resolves to (\<open>None\<close> is
  \<open>undefined\<close>); the constants \<open>MAX_PARALLEL\<close> and \<open>MAX_CONCURRENCY\<close> (types.ts); \<open>runSync\<close>
  (execution.ts) as a function of the agent name, the task and the index;
  \<open>executeChain\<close> with the chain that its dialog sent to the background, if any;
  \<open>executeAsyncChain\<close> and \<open>executeAsyncSingle\<close>; the task of single mode after
  \<open>injectSingleOutputInstruction\<close>, and the display output of \<open>finalizeSingleOutput\<close>.
\<close>

record xenv =
  x_management :: menv
  checkSubagentDepth :: depth_check
  discoverAgents :: "fsys \<Rightarrow> string option \<Rightarrow> agent_config list"
  asyncByDefault :: bool
  isAsyncAvailable :: bool
  hasUI :: bool
  ui_custom :: "clarify_result option"
  MAX_PARALLEL :: nat
  MAX_CONCURRENCY :: jsnum
  runSync :: "string \<Rightarrow> string option \<Rightarrow> nat option \<Rightarrow> single_result"
  executeChain :: "chain_item list \<Rightarrow> string option \<Rightarrow> agent_config list \<Rightarrow>
                   tool_result \<times> chain_item list option"
  executeAsyncChain :: "chain_item list \<Rightarrow> agent_config list \<Rightarrow> tool_result"
  executeAsyncSingle :: "string \<Rightarrow> string option \<Rightarrow> agent_config \<Rightarrow> tool_result"
  injectSingleOutputInstruction :: "string option \<Rightarrow> string option"
  displayOutput :: "single_result \<Rightarrow> string"

subsection \<open>execute\<close>

definition validActions :: "string list" where
  "validActions = [''list'', ''get'', ''create'', ''update'', ''delete'']"

definition nested_blocked :: "depth_check \<Rightarrow> tool_result" where
  "nested_blocked d =
     error_result (''Nested subagent call blocked (depth='' @ show_nat (depth d) @ '', max='' @
                   show_nat (maxDepth d) @ ''). '' @
                   ''You are running at the maximum subagent nesting depth. '' @
                   ''Complete your current task directly without delegating to further subagents.'')
       Single"

text \<open>\<open>(params.chain?.length ?? 0) > 0\<close>, the same for \<open>tasks\<close>, and
  \<open>Boolean(params.agent && params.task)\<close>.\<close>

definition hasChain :: "xparams \<Rightarrow> bool" where
  "hasChain params = (opt_items (p_chain params) \<noteq> [])"

definition hasTasks :: "xparams \<Rightarrow> bool" where
  "hasTasks params = (opt_items (p_tasks params) \<noteq> [])"

definition hasSingle :: "xparams \<Rightarrow> bool" where
  "hasSingle params = (truthy (p_agent params) \<and> truthy (p_task params))"

definition requestedAsync :: "xenv \<Rightarrow> xparams \<Rightarrow> bool" where
  "requestedAsync env params = (case p_async params of Some b \<Rightarrow> b | None \<Rightarrow> asyncByDefault env)"

definition effectiveAsync :: "xenv \<Rightarrow> xparams \<Rightarrow> bool" where
  "effectiveAsync env params =
     (requestedAsync env params \<and> \<not> hasTasks params \<and>
      (if hasChain params then p_clarify params = Some False else p_clarify params \<noteq> Some True))"

definition agent_names :: "agent_config list \<Rightarrow> string list" where
  "agent_names agents = map a_name agents"

text \<open>\<open>agents.find((a) => a.name === name)\<close>\<close>

definition find_agent :: "agent_config list \<Rightarrow> string \<Rightarrow> agent_config option" where
  "find_agent agents name = find (\<lambda>a. a_name a = name) agents"

text \<open>\<open>xs.findIndex(P)\<close>, \<open>None\<close> for -1, and \<open>xs[i]\<close>, \<open>None\<close> for \<open>undefined\<close>.\<close>

fun findIndex :: "('a \<Rightarrow> bool) \<Rightarrow> 'a list \<Rightarrow> nat option" where
  "findIndex P [] = None"
| "findIndex P (x # xs) = (if P x then Some 0 else map_option Suc (findIndex P xs))"

definition at_index :: "'a list \<Rightarrow> nat \<Rightarrow> 'a option" where
  "at_index xs i = (if i < length xs then Some (xs ! i) else None)"

text \<open>The early validation of a chain: the first step, then every step in turn
  (\<open>i\<close> is the index of the head of the list).\<close>

definition first_step_error :: "xparams \<Rightarrow> chain_item \<Rightarrow> tool_result option" where
  "first_step_error params firstStep =
     (case firstStep of
        ParallelStep ts \<Rightarrow>
          (case findIndex (\<lambda>t. \<not> truthy (q_task t)) ts of
             Some missingTaskIndex \<Rightarrow>
               Some (error_result (''First parallel step: task '' @ show_nat (missingTaskIndex + 1) @
                                   '' must have a task (no previous output to reference)'') Chain)
           | None \<Rightarrow> None)
      | SequentialStep a t \<Rightarrow>
          if \<not> truthy t \<and> \<not> truthy (p_task params)
          then Some (error_result ''First step in chain must have a task'' Chain)
          else None)"

fun validate_steps :: "agent_config list \<Rightarrow> nat \<Rightarrow> chain_item list \<Rightarrow> tool_result option" where
  "validate_steps agents i [] = None"
| "validate_steps agents i (step # steps) =
     (case find (\<lambda>agentName. find_agent agents agentName = None) (getStepAgents step) of
        Some agentName \<Rightarrow>
          Some (error_result (''Unknown agent: '' @ agentName @ '' (step '' @ show_nat (i + 1) @ '')'') Chain)
      | None \<Rightarrow>
          if isParallelStep step \<and> parallel_of step = []
          then Some (error_result (''Parallel step '' @ show_nat (i + 1) @
                                   '' must have at least one task'') Chain)
          else validate_steps agents (Suc i) steps)"

definition validate_chain :: "xparams \<Rightarrow> agent_config list \<Rightarrow> chain_item list \<Rightarrow> tool_result option" where
  "validate_chain params agents chain =
     (if chain = [] then Some (error_result ''Chain must have at least one step'' Chain)
      else (case first_step_error params (hd chain) of
              Some e \<Rightarrow> Some e
            | None \<Rightarrow> validate_steps agents 0 chain))"

definition jiti_missing :: "string \<Rightarrow> mode \<Rightarrow> tool_result" where
  "jiti_missing what m =
     error_result (what @ '' mode requires jiti for TypeScript execution but it could not be found.'' @
                   (if what = ''Async'' then '' Install globally: npm install -g jiti'' else [])) m"

definition cancelled :: "mode \<Rightarrow> tool_result" where
  "cancelled m = \<lparr>t_text = ''Cancelled'', t_isError = False, t_mode = m, t_results = []\<rparr>"

text \<open>The text of the parallel result. The warning sign is U+26A0 U+FE0F, here in
  the bytes of UTF-8.\<close>

definition warning_sign :: string where
  "warning_sign = [CHR 0xE2, CHR 0x9A, CHR 0xA0, CHR 0xEF, CHR 0xB8, CHR 0x8F]"

definition show_int :: "int \<Rightarrow> string" where
  "show_int i = (if i < 0 then ''-'' @ show_nat (nat (- i)) else show_nat (nat i))"

definition task_block :: "nat \<Rightarrow> single_result \<Rightarrow> string" where
  "task_block i r =
     (let header = ''=== Task '' @ show_nat (i + 1) @ '': '' @ r_agent r @ '' ==='';
          output = r_output r;
          hasOutput = (trim output \<noteq> []);
          status = (if r_exitCode r \<noteq> 0
                    then warning_sign @ '' FAILED (exit code '' @ show_int (r_exitCode r) @ '')'' @
                         (if truthy (r_error r) then '': '' @ opt_str (r_error r) else [])
                    else if truthy (r_error r) then warning_sign @ '' WARNING: '' @ opt_str (r_error r)
                    else if \<not> hasOutput then warning_sign @ '' EMPTY OUTPUT''
                    else []);
          body = (if status \<noteq> [] then (if hasOutput then status @ nl @ output else status)
                  else output)
      in header @ nl @ body)"

definition parallel_result :: "xenv \<Rightarrow> xparams \<Rightarrow> single_result list \<Rightarrow> tool_result" where
  "parallel_result env params results =
     (let ok = length (filter (\<lambda>r. r_exitCode r = 0) results);
          downgradeNote = (if hasTasks params \<and> requestedAsync env params
                           then '' (async not supported for parallel)'' else []);
          aggregatedOutput = join (nl @ nl)
            (map (\<lambda>(i, r). task_block i r) (zip [0 ..< length results] results));
          summary = show_nat ok @ ''/'' @ show_nat (length results) @ '' succeeded'' @ downgradeNote
      in \<lparr>t_text = summary @ nl @ nl @ aggregatedOutput, t_isError = False, t_mode = Parallel,
          t_results = results\<rparr>)"

text \<open>
  The parallel branch after the validation: \<open>mapConcurrent(params.tasks, MAX_CONCURRENCY, fn)\<close>
  where \<open>fn(t, i)\<close> awaits \<open>runSync\<close> for the agent of \<open>t\<close> and the task text \<open>tasks[i]\<close>. A
  call of \<open>fn\<close> does not return before it has waited, and the model keeps no state of
  its own beside the one of \<open>mapConcurrent\<close>. The result is \<open>None\<close> while the runs are
  not all done on the schedule.
\<close>

definition run_parallel ::
  "xenv \<Rightarrow> xparams \<Rightarrow> task_item list \<Rightarrow> string list \<Rightarrow> nat list \<Rightarrow> tool_result option" where
  "run_parallel env params items tasks sched =
     (case mapConcurrent items (MAX_CONCURRENCY env)
             (\<lambda>t i u. (None, u))
             (\<lambda>t i u. (runSync env (k_agent t) (at_index tasks i) (Some i), u))
             () sched of
        None \<Rightarrow> None
      | Some (results, u) \<Rightarrow> Some (parallel_result env params (concat (map opt_list results))))"

definition execute_parallel ::
  "xenv \<Rightarrow> xparams \<Rightarrow> agent_config list \<Rightarrow> task_item list \<Rightarrow> nat list \<Rightarrow> tool_result option" where
  "execute_parallel env params agents items sched =
     (if length items > MAX_PARALLEL env
      then Some (error_result (''Max '' @ show_nat (MAX_PARALLEL env) @ '' tasks'') Parallel)
      else
        (case find (\<lambda>t. find_agent agents (k_agent t) = None) items of
           Some t \<Rightarrow> Some (error_result (''Unknown agent: '' @ k_agent t) Parallel)
         | None \<Rightarrow>
           if p_clarify params = Some True \<and> hasUI env then
             (case ui_custom env of
                None \<Rightarrow> Some (cancelled Parallel)
              | Some res \<Rightarrow>
                if \<not> confirmed res then Some (cancelled Parallel)
                else if runInBackground res then
                  (if \<not> isAsyncAvailable env then Some (jiti_missing ''Background'' Parallel)
                   else Some (executeAsyncChain env
                          [ParallelStep (map (\<lambda>(i, t). \<lparr>q_agent = k_agent t,
                                                         q_task = at_index (templates res) i\<rparr>)
                                           (zip [0 ..< length items] items))]
                          agents))
                else run_parallel env params items (templates res) sched)
           else run_parallel env params items (map k_task items) sched))"

text \<open>The run of single mode and its result.\<close>

definition single_run :: "xenv \<Rightarrow> xparams \<Rightarrow> string option \<Rightarrow> tool_result" where
  "single_run env params task =
     (let r = runSync env (opt_str (p_agent params)) (injectSingleOutputInstruction env task) None
      in if r_exitCode r \<noteq> 0
         then \<lparr>t_text = (if truthy (r_error r) then opt_str (r_error r) else ''Failed''),
               t_isError = True, t_mode = Single, t_results = [r]\<rparr>
         else \<lparr>t_text = (if displayOutput env r \<noteq> [] then displayOutput env r else ''(no output)''),
               t_isError = False, t_mode = Single, t_results = [r]\<rparr>)"

definition execute_single :: "xenv \<Rightarrow> xparams \<Rightarrow> agent_config list \<Rightarrow> tool_result" where
  "execute_single env params agents =
     (case find_agent agents (opt_str (p_agent params)) of
        None \<Rightarrow> error_result (''Unknown agent: '' @ opt_str (p_agent params)) Single
      | Some agentConfig \<Rightarrow>
        (let ui = (if p_clarify params = Some True \<and> hasUI env then Some (ui_custom env) else None)
         in case ui of
              Some None \<Rightarrow> cancelled Single
            | Some (Some res) \<Rightarrow>
                if \<not> confirmed res then cancelled Single
                else if runInBackground res then
                  (if \<not> isAsyncAvailable env then jiti_missing ''Background'' Single
                   else executeAsyncSingle env (opt_str (p_agent params)) (at_index (templates res) 0)
                          agentConfig)
                else single_run env params (at_index (templates res) 0)
            | None \<Rightarrow> single_run env params (p_task params)))"

text \<open>The branch \<open>if (effectiveAsync)\<close>; \<open>None\<close> when it falls through.\<close>

definition execute_async :: "xenv \<Rightarrow> xparams \<Rightarrow> agent_config list \<Rightarrow> tool_result option" where
  "execute_async env params agents =
     (if \<not> isAsyncAvailable env then Some (jiti_missing ''Async'' Single)
      else if hasChain params
      then Some (executeAsyncChain env (opt_items (p_chain params)) agents)
      else if hasSingle params then
        (case find_agent agents (opt_str (p_agent params)) of
           None \<Rightarrow> Some (error_result (''Unknown: '' @ opt_str (p_agent params)) Single)
         | Some a \<Rightarrow> Some (executeAsyncSingle env (opt_str (p_agent params)) (p_task params) a))
      else None)"

text \<open>The chain branch: \<open>executeChain\<close>, and the async executor when its dialog asked for
  the background.\<close>

definition execute_chain :: "xenv \<Rightarrow> xparams \<Rightarrow> agent_config list \<Rightarrow> tool_result" where
  "execute_chain env params agents =
     (case executeChain env (opt_items (p_chain params)) (p_task params) agents of
        (chainResult, Some chain) \<Rightarrow>
          if \<not> isAsyncAvailable env then jiti_missing ''Background'' Chain
          else executeAsyncChain env chain agents
      | (chainResult, None) \<Rightarrow> chainResult)"

text \<open>
  \<open>execute\<close> after the depth guard: an execution request. The file effects of a
  run are not modelled.
\<close>

definition mode_count :: "xparams \<Rightarrow> nat" where
  "mode_count params =
     (if hasChain params then 1 else 0) + (if hasTasks params then 1 else 0) +
     (if hasSingle params then 1 else 0)"

definition execute_request :: "xenv \<Rightarrow> xparams \<Rightarrow> nat list \<Rightarrow> fsys \<Rightarrow> tool_result option" where
  "execute_request env params sched fs =
     (let agents = discoverAgents env fs (p_agentScope params)
      in if mode_count params \<noteq> 1
         then Some (error_result (''Provide exactly one mode. Agents: '' @
                                  or_none (join '', '' (agent_names agents))) Single)
         else
           (case (if hasChain params then validate_chain params agents (opt_items (p_chain params))
                  else None) of
              Some e \<Rightarrow> Some e
            | None \<Rightarrow>
              (case (if effectiveAsync env params then execute_async env params agents else None) of
                 Some r \<Rightarrow> Some r
               | None \<Rightarrow>
                 if hasChain params then Some (execute_chain env params agents)
                 else if hasTasks params
                 then execute_parallel env params agents (opt_items (p_tasks params)) sched
                 else if hasSingle params then Some (execute_single env params agents)
                 else Some (error_result ''Invalid params'' Single))))"

text \<open>
  \<open>execute\<close>: a request with an action goes to the management handlers; every other
  request meets the depth guard first. \<open>sched\<close> is the order in which the runs of a
  parallel request complete; the result is \<open>None\<close> while \<open>execute\<close> has not returned.
\<close>

definition execute :: "xenv \<Rightarrow> xparams \<Rightarrow> nat list \<Rightarrow> fsys \<Rightarrow> (tool_result \<times> fsys) option" where
  "execute env params sched fs =
     (if truthy (p_action params) then
        (if opt_str (p_action params) \<notin> set validActions
         then Some (error_result (''Unknown action: '' @ opt_str (p_action params) @ ''. Valid: '' @
                                  join '', '' validActions) Management, fs)
         else (case handleManagementAction (x_management env) (opt_str (p_action params))
                      (mparams.truncate params) fs of
                 (r, fs') \<Rightarrow> Some (of_management r, fs')))
      else if blocked (checkSubagentDepth env) then Some (nested_blocked (checkSubagentDepth env), fs)
      else map_option (\<lambda>r. (r, fs)) (execute_request env params sched fs))"

subsection \<open>Management requests and the depth guard\<close>

lemma validActions_truthy: "a \<in> set validActions \<Longrightarrow> truthy (Some a)"
  by (auto simp: validActions_def)

lemma execute_management:
  assumes "p_action params = Some a" and "a \<in> set validActions"
  shows "execute env params sched fs =
     Some (of_management (fst (handleManagementAction (x_management env) a (mparams.truncate params) fs)),
           snd (handleManagementAction (x_management env) a (mparams.truncate params) fs))"
  using assms validActions_truthy[OF assms(2)]
  by (simp add: execute_def split: prod.splits)

lemma execute_action_mode:
  assumes "truthy (p_action params)" and "execute env params sched fs = Some (r, fs')"
  shows "t_mode r = Management"
  using assms
  by (auto simp: execute_def error_result_def of_management_def split: if_splits prod.splits)

lemma nested_blocked_mode: "t_mode (nested_blocked d) = Single"
  by (simp add: nested_blocked_def error_result_def)

text \<open>
  C9. A request whose \<open>action\<close> is one of list, get, create, update and delete is
  answered by the management handler on the file system as it is, whatever the depth
  guard says: the value of \<open>checkSubagentDepth()\<close> has no part in the result. The result
  of a request with an action has the mode of the management results, so it is never
  the result of the depth guard; that one, the error \<open>Nested subagent call blocked\<close>, is
  what a request without an action gets when the guard blocks.
\<close>

theorem management_before_depth_guard:
  "(p_action params = Some a \<and> a \<in> set validActions \<longrightarrow>
      execute env params sched fs =
        Some (of_management (fst (handleManagementAction (x_management env) a (mparams.truncate params) fs)),
              snd (handleManagementAction (x_management env) a (mparams.truncate params) fs)) \<and>
      (\<forall>d. execute (env\<lparr>checkSubagentDepth := d\<rparr>) params sched fs = execute env params sched fs)) \<and>
   (truthy (p_action params) \<longrightarrow>
      (\<forall>r fs'. execute env params sched fs = Some (r, fs') \<longrightarrow>
         t_mode r = Management \<and> r \<noteq> nested_blocked (checkSubagentDepth env))) \<and>
   (\<not> truthy (p_action params) \<and> blocked (checkSubagentDepth env) \<longrightarrow>
      execute env params sched fs = Some (nested_blocked (checkSubagentDepth env), fs))"
proof (intro conjI impI allI)
  assume a: "p_action params = Some a \<and> a \<in> set validActions"
  then show "execute env params sched fs =
        Some (of_management (fst (handleManagementAction (x_management env) a (mparams.truncate params) fs)),
              snd (handleManagementAction (x_management env) a (mparams.truncate params) fs))"
    by (simp add: execute_management)
  fix d
  from a show "execute (env\<lparr>checkSubagentDepth := d\<rparr>) params sched fs = execute env params sched fs"
    by (simp add: execute_management)
next
  fix r fs'
  assume t: "truthy (p_action params)" and e: "execute env params sched fs = Some (r, fs')"
  then have m: "t_mode r = Management" by (rule execute_action_mode)
  then show "t_mode r = Management" .
  from m nested_blocked_mode[of "checkSubagentDepth env"]
  show "r \<noteq> nested_blocked (checkSubagentDepth env)" by auto
next
  assume "\<not> truthy (p_action params) \<and> blocked (checkSubagentDepth env)"
  then show "execute env params sched fs = Some (nested_blocked (checkSubagentDepth env), fs)"
    by (simp add: execute_def)
qed

subsection \<open>A concrete dispatcher\<close>

text \<open>
  A context for concrete runs: the store of the management examples, the depth guard
  as given, the agents of the store for every scope, no dialog, sixteen tasks at most,
  four at a time, and runs that succeed with the name of their agent as output.
\<close>

definition demo_run :: "string \<Rightarrow> string option \<Rightarrow> nat option \<Rightarrow> single_result" where
  "demo_run agentName task index = \<lparr>r_agent = agentName, r_exitCode = 0, r_error = None,
     r_output = agentName\<rparr>"

definition demo_xenv :: "depth_check \<Rightarrow> agent_config list \<Rightarrow> xenv" where
  "demo_xenv d agents = \<lparr>x_management = demo_env agents, checkSubagentDepth = d,
     discoverAgents = (\<lambda>fs scope. agents), asyncByDefault = False, isAsyncAvailable = True,
     hasUI = False, ui_custom = None, MAX_PARALLEL = 16, MAX_CONCURRENCY = Fin 4,
     runSync = demo_run,
     executeChain = (\<lambda>chain task agents. (cancelled Chain, None)),
     executeAsyncChain = (\<lambda>chain agents. cancelled Chain),
     executeAsyncSingle = (\<lambda>agent task config. cancelled Single),
     injectSingleOutputInstruction = (\<lambda>task. task), displayOutput = r_output\<rparr>"

definition at_max_depth :: depth_check where
  "at_max_depth = \<lparr>blocked = True, depth = 2, maxDepth = 2\<rparr>"

definition below_max_depth :: depth_check where
  "below_max_depth = \<lparr>blocked = False, depth = 0, maxDepth = 2\<rparr>"

definition demo_request :: xparams where
  "demo_request = \<lparr>p_agent = None, p_chainName = None, p_agentScope = None, p_config = JUndefined,
     p_action = None, p_task = None, p_chain = None, p_tasks = None, p_async = None,
     p_clarify = None\<rparr>"

definition demo_create :: xparams where
  "demo_create = demo_request\<lparr>p_action := Some ''create'',
     p_config := JObj [(''name'', JStr ''My Agent''), (''description'', JStr ''d'')]\<rparr>"

definition demo_single :: xparams where
  "demo_single = demo_request\<lparr>p_agent := Some ''nope'', p_task := Some ''t''\<rparr>"

lemma demo_create_at_max_depth:
  "\<not> isError (fst (handleManagementAction (x_management (demo_xenv at_max_depth [])) ''create''
       (mparams.truncate demo_create) demo_fs))"
  "files (snd (handleManagementAction (x_management (demo_xenv at_max_depth [])) ''create''
       (mparams.truncate demo_create) demo_fs)) ''/u/agents/my-agent.md'' \<noteq> None"
  "p_action demo_create = Some ''create''" "''create'' \<in> set validActions"
  "\<not> truthy (p_action demo_single)" "blocked (checkSubagentDepth (demo_xenv at_max_depth []))"
  by code_simp+

text \<open>
  Witness: at the maximum depth, the request to create \<open>My Agent\<close> is carried out, and
  its file is there afterwards, while the request to run an agent is blocked.
\<close>

theorem management_before_depth_guard_witness:
  "(\<exists>r fs'. execute (demo_xenv at_max_depth []) demo_create [] demo_fs = Some (r, fs') \<and>
      t_isError r = False \<and> t_mode r = Management \<and> files fs' ''/u/agents/my-agent.md'' \<noteq> None) \<and>
   execute (demo_xenv at_max_depth []) demo_single [] demo_fs =
     Some (nested_blocked at_max_depth, demo_fs)"
proof -
  note inst = management_before_depth_guard[of _ _ "demo_xenv at_max_depth []" "[]" demo_fs]
  from inst[of demo_create "''create''"] demo_create_at_max_depth(3,4)
  have "execute (demo_xenv at_max_depth []) demo_create [] demo_fs =
        Some (of_management (fst (handleManagementAction (x_management (demo_xenv at_max_depth []))
                ''create'' (mparams.truncate demo_create) demo_fs)),
              snd (handleManagementAction (x_management (demo_xenv at_max_depth []))
                ''create'' (mparams.truncate demo_create) demo_fs))"
    by blast
  with demo_create_at_max_depth(1,2)
  have a: "\<exists>r fs'. execute (demo_xenv at_max_depth []) demo_create [] demo_fs = Some (r, fs') \<and>
      t_isError r = False \<and> t_mode r = Management \<and> files fs' ''/u/agents/my-agent.md'' \<noteq> None"
    by (simp add: of_management_def)
  from inst[of demo_single "[]"] demo_create_at_max_depth(5,6)
  have "execute (demo_xenv at_max_depth []) demo_single [] demo_fs =
     Some (nested_blocked (checkSubagentDepth (demo_xenv at_max_depth [])), demo_fs)"
    by blast
  then have b: "execute (demo_xenv at_max_depth []) demo_single [] demo_fs =
     Some (nested_blocked at_max_depth, demo_fs)"
    by (simp add: demo_xenv_def)
  from a b show ?thesis by blast
qed

subsection \<open>Requests that name an unknown agent\<close>

text \<open>The agent names an execution request refers to, by its mode.\<close>

definition referenced_agents :: "xparams \<Rightarrow> string list" where
  "referenced_agents params =
     (if hasChain params then concat (map getStepAgents (opt_items (p_chain params)))
      else if hasTasks params then map k_agent (opt_items (p_tasks params))
      else if hasSingle params then [opt_str (p_agent params)]
      else [])"

definition is_validation_error :: "tool_result \<Rightarrow> bool" where
  "is_validation_error r = (t_isError r \<and> t_results r = [])"

lemma error_result_validation [simp]: "is_validation_error (error_result msg m)"
  by (simp add: is_validation_error_def error_result_def)

lemma find_agent_None: "find_agent agents name = None \<longleftrightarrow> name \<notin> set (agent_names agents)"
  by (auto simp: find_agent_def agent_names_def find_None_iff)

lemma find_SomeD: "find P xs = Some x \<Longrightarrow> x \<in> set xs \<and> P x"
  by (auto simp: find_Some_iff)

lemma find_Some_ex: "\<exists>x \<in> set xs. P x \<Longrightarrow> \<exists>y. find P xs = Some y"
  by (cases "find P xs") (auto simp: find_None_iff)

text \<open>A chain with an unknown agent does not pass the validation of its steps; when
  no parallel step is empty, the error names an unknown agent and its step.\<close>

lemma validate_steps_unknown:
  assumes "\<exists>s \<in> set chain. \<exists>n \<in> set (getStepAgents s). find_agent agents n = None"
  shows "\<exists>e. validate_steps agents i chain = Some e \<and> is_validation_error e"
  using assms
proof (induction chain arbitrary: i)
  case Nil
  then show ?case by simp
next
  case (Cons step steps)
  show ?case
  proof (cases "find (\<lambda>agentName. find_agent agents agentName = None) (getStepAgents step)")
    case (Some n)
    then show ?thesis by simp
  next
    case None
    then have "\<not> (\<exists>n \<in> set (getStepAgents step). find_agent agents n = None)"
      by (simp add: find_None_iff)
    with Cons.prems have "\<exists>s \<in> set steps. \<exists>n \<in> set (getStepAgents s). find_agent agents n = None"
      by auto
    from Cons.IH[OF this, of "Suc i"] None show ?thesis by auto
  qed
qed

lemma validate_steps_message:
  assumes "\<exists>s \<in> set chain. \<exists>n \<in> set (getStepAgents s). find_agent agents n = None"
    and "\<forall>s \<in> set chain. \<not> (isParallelStep s \<and> parallel_of s = [])"
  shows "\<exists>k < length chain. \<exists>n \<in> set (getStepAgents (chain ! k)). find_agent agents n = None \<and>
     validate_steps agents i chain =
       Some (error_result (''Unknown agent: '' @ n @ '' (step '' @ show_nat (i + k + 1) @ '')'') Chain)"
  using assms
proof (induction chain arbitrary: i)
  case Nil
  then show ?case by simp
next
  case (Cons step steps)
  show ?case
  proof (cases "find (\<lambda>agentName. find_agent agents agentName = None) (getStepAgents step)")
    case (Some n)
    from find_SomeD[OF Some] have "n \<in> set (getStepAgents ((step # steps) ! 0))"
      "find_agent agents n = None" by simp_all
    moreover from Some have "validate_steps agents i (step # steps) =
       Some (error_result (''Unknown agent: '' @ n @ '' (step '' @ show_nat (i + 0 + 1) @ '')'') Chain)"
      by simp
    ultimately show ?thesis by (intro exI[of _ 0]) auto
  next
    case None
    then have "\<not> (\<exists>n \<in> set (getStepAgents step). find_agent agents n = None)"
      by (simp add: find_None_iff)
    with Cons.prems have u: "\<exists>s \<in> set steps. \<exists>n \<in> set (getStepAgents s). find_agent agents n = None"
      by auto
    from Cons.prems have e: "\<forall>s \<in> set steps. \<not> (isParallelStep s \<and> parallel_of s = [])"
      and h: "\<not> (isParallelStep step \<and> parallel_of step = [])" by auto
    from Cons.IH[OF u e, of "Suc i"] obtain k n where k: "k < length steps"
      "n \<in> set (getStepAgents (steps ! k))" "find_agent agents n = None"
      "validate_steps agents (Suc i) steps =
         Some (error_result (''Unknown agent: '' @ n @ '' (step '' @ show_nat (Suc i + k + 1) @ '')'') Chain)"
      by blast
    from k(4) None h have "validate_steps agents i (step # steps) =
         Some (error_result (''Unknown agent: '' @ n @ '' (step '' @ show_nat (i + Suc k + 1) @ '')'') Chain)"
      by auto
    with k(1,2,3) show ?thesis by (intro exI[of _ "Suc k"]) auto
  qed
qed

lemma first_step_error_validation:
  "first_step_error params s = Some e \<Longrightarrow> is_validation_error e"
  by (auto simp: first_step_error_def split: chain_item.splits option.splits if_splits)

lemma validate_chain_unknown:
  assumes "\<exists>s \<in> set chain. \<exists>n \<in> set (getStepAgents s). find_agent agents n = None"
  shows "\<exists>e. validate_chain params agents chain = Some e \<and> is_validation_error e"
proof (cases "first_step_error params (hd chain)")
  case None
  from assms have "chain \<noteq> []" by auto
  with None validate_steps_unknown[OF assms, of 0] show ?thesis by (simp add: validate_chain_def)
next
  case (Some e)
  from assms have "chain \<noteq> []" by auto
  with Some first_step_error_validation[OF Some] show ?thesis by (simp add: validate_chain_def)
qed

lemma execute_parallel_unknown:
  assumes "\<exists>t \<in> set items. find_agent agents (k_agent t) = None"
  shows "\<exists>e. execute_parallel env params agents items sched = Some e \<and> is_validation_error e \<and>
     (length items \<le> MAX_PARALLEL env \<longrightarrow>
        (\<exists>t \<in> set items. find_agent agents (k_agent t) = None \<and>
           e = error_result (''Unknown agent: '' @ k_agent t) Parallel))"
proof -
  from find_Some_ex[of items "\<lambda>t. find_agent agents (k_agent t) = None", OF assms]
  obtain t where t: "find (\<lambda>t. find_agent agents (k_agent t) = None) items = Some t" by blast
  from find_SomeD[OF t] have "t \<in> set items" "find_agent agents (k_agent t) = None" by simp_all
  with t show ?thesis by (auto simp: execute_parallel_def)
qed

lemma execute_request_result:
  assumes "\<not> truthy (p_action params)" and "\<not> blocked (checkSubagentDepth env)"
  shows "execute env params sched fs = map_option (\<lambda>r. (r, fs)) (execute_request env params sched fs)"
  using assms by (simp add: execute_def)

text \<open>The three modes.\<close>

lemma execute_request_chain_unknown:
  assumes c: "hasChain params" "\<not> hasTasks params" "\<not> hasSingle params"
    and u: "\<exists>n \<in> set (referenced_agents params).
              n \<notin> set (agent_names (discoverAgents env fs (p_agentScope params)))"
  shows "\<exists>e. execute_request env params sched fs = Some e \<and> is_validation_error e \<and>
     (first_step_error params (hd (opt_items (p_chain params))) = None \<and>
      (\<forall>s \<in> set (opt_items (p_chain params)). \<not> (isParallelStep s \<and> parallel_of s = [])) \<longrightarrow>
        (\<exists>k < length (opt_items (p_chain params)).
           \<exists>n \<in> set (getStepAgents (opt_items (p_chain params) ! k)).
             n \<notin> set (agent_names (discoverAgents env fs (p_agentScope params))) \<and>
             e = error_result (''Unknown agent: '' @ n @ '' (step '' @ show_nat (k + 1) @ '')'') Chain))"
proof -
  let ?agents = "discoverAgents env fs (p_agentScope params)"
  let ?chain = "opt_items (p_chain params)"
  from u c have un: "\<exists>s \<in> set ?chain. \<exists>n \<in> set (getStepAgents s). find_agent ?agents n = None"
    by (auto simp: referenced_agents_def find_agent_None)
  from validate_chain_unknown[OF un, of params] obtain e
    where e: "validate_chain params ?agents ?chain = Some e" "is_validation_error e" by blast
  from c have m: "mode_count params = 1" by (simp add: mode_count_def)
  have r: "execute_request env params sched fs = Some e"
    using c m e(1) by (simp add: execute_request_def Let_def)
  have "first_step_error params (hd ?chain) = None \<and>
      (\<forall>s \<in> set ?chain. \<not> (isParallelStep s \<and> parallel_of s = [])) \<longrightarrow>
      (\<exists>k < length ?chain. \<exists>n \<in> set (getStepAgents (?chain ! k)).
             n \<notin> set (agent_names ?agents) \<and>
             e = error_result (''Unknown agent: '' @ n @ '' (step '' @ show_nat (k + 1) @ '')'') Chain)"
  proof (intro impI, elim conjE)
    assume f: "first_step_error params (hd ?chain) = None"
      and p: "\<forall>s \<in> set ?chain. \<not> (isParallelStep s \<and> parallel_of s = [])"
    from un have "?chain \<noteq> []" by auto
    with f e(1) have "validate_steps ?agents 0 ?chain = Some e" by (simp add: validate_chain_def)
    with validate_steps_message[OF un p, of 0]
    show "\<exists>k < length ?chain. \<exists>n \<in> set (getStepAgents (?chain ! k)).
             n \<notin> set (agent_names ?agents) \<and>
             e = error_result (''Unknown agent: '' @ n @ '' (step '' @ show_nat (k + 1) @ '')'') Chain"
      by (auto simp: find_agent_None)
  qed
  with r e(2) show ?thesis by (intro exI[of _ e]) simp
qed

lemma execute_request_tasks_unknown:
  assumes c: "\<not> hasChain params" "hasTasks params" "\<not> hasSingle params"
    and u: "\<exists>n \<in> set (referenced_agents params).
              n \<notin> set (agent_names (discoverAgents env fs (p_agentScope params)))"
  shows "\<exists>e. execute_request env params sched fs = Some e \<and> is_validation_error e \<and>
     (length (opt_items (p_tasks params)) \<le> MAX_PARALLEL env \<longrightarrow>
        (\<exists>t \<in> set (opt_items (p_tasks params)).
           k_agent t \<notin> set (agent_names (discoverAgents env fs (p_agentScope params))) \<and>
           e = error_result (''Unknown agent: '' @ k_agent t) Parallel))"
proof -
  let ?agents = "discoverAgents env fs (p_agentScope params)"
  let ?items = "opt_items (p_tasks params)"
  from u c have un: "\<exists>t \<in> set ?items. find_agent ?agents (k_agent t) = None"
    by (auto simp: referenced_agents_def find_agent_None)
  from c have m: "mode_count params = 1" by (simp add: mode_count_def)
  from c have na: "\<not> effectiveAsync env params" by (simp add: effectiveAsync_def)
  have "execute_request env params sched fs = execute_parallel env params ?agents ?items sched"
    using c m na by (simp add: execute_request_def Let_def)
  with execute_parallel_unknown[OF un, of env params sched] show ?thesis
    by (auto simp: find_agent_None)
qed

lemma execute_request_single_unknown:
  assumes c: "\<not> hasChain params" "\<not> hasTasks params" "hasSingle params"
    and u: "\<exists>n \<in> set (referenced_agents params).
              n \<notin> set (agent_names (discoverAgents env fs (p_agentScope params)))"
  shows "\<exists>e. execute_request env params sched fs = Some e \<and> is_validation_error e \<and>
     (\<not> effectiveAsync env params \<longrightarrow>
        e = error_result (''Unknown agent: '' @ opt_str (p_agent params)) Single) \<and>
     (effectiveAsync env params \<and> isAsyncAvailable env \<longrightarrow>
        e = error_result (''Unknown: '' @ opt_str (p_agent params)) Single)"
proof -
  let ?agents = "discoverAgents env fs (p_agentScope params)"
  from u c have un: "find_agent ?agents (opt_str (p_agent params)) = None"
    by (auto simp: referenced_agents_def find_agent_None)
  from c have m: "mode_count params = 1" by (simp add: mode_count_def)
  show ?thesis
  proof (cases "effectiveAsync env params")
    case True
    then have "execute_request env params sched fs =
        Some (if \<not> isAsyncAvailable env then jiti_missing ''Async'' Single
              else error_result (''Unknown: '' @ opt_str (p_agent params)) Single)"
      using c m un by (simp add: execute_request_def Let_def execute_async_def)
    with True show ?thesis by (simp add: jiti_missing_def)
  next
    case False
    then have "execute_request env params sched fs =
        Some (error_result (''Unknown agent: '' @ opt_str (p_agent params)) Single)"
      using c m un by (simp add: execute_request_def Let_def execute_single_def)
    with False show ?thesis by simp
  qed
qed

text \<open>
  C6, as amended. An execution request in one mode that the depth guard lets through
  and that names an agent which is not among the discovered ones gets an error
  result: \<open>isError\<close> is set, there are no results, and \<open>execute\<close> returns on every
  schedule, so nothing is run and nothing is thrown. When no check that comes earlier fails, the
  text is \<open>Unknown agent: \<close> with the name: for a chain (a first step with a task, no
  empty parallel step) with the step in brackets after it, for a parallel request
  within \<open>MAX_PARALLEL\<close> the name of a task's agent, for a single request the agent; a
  single request on the async path with the async runner available gets \<open>Unknown: \<close>
  with the name. The text is made of the name alone: the available agents are not
  listed in it.
\<close>

theorem unknown_agent_is_validation_error:
  assumes "\<not> truthy (p_action params)" and "\<not> blocked (checkSubagentDepth env)"
    and "mode_count params = 1"
    and "\<exists>n \<in> set (referenced_agents params).
           n \<notin> set (agent_names (discoverAgents env fs (p_agentScope params)))"
  shows "\<exists>e. execute env params sched fs = Some (e, fs) \<and> t_isError e \<and> t_results e = [] \<and>
     (hasChain params \<and> first_step_error params (hd (opt_items (p_chain params))) = None \<and>
      (\<forall>s \<in> set (opt_items (p_chain params)). \<not> (isParallelStep s \<and> parallel_of s = [])) \<longrightarrow>
        (\<exists>k < length (opt_items (p_chain params)).
           \<exists>n \<in> set (getStepAgents (opt_items (p_chain params) ! k)).
             n \<notin> set (agent_names (discoverAgents env fs (p_agentScope params))) \<and>
             e = error_result (''Unknown agent: '' @ n @ '' (step '' @ show_nat (k + 1) @ '')'') Chain)) \<and>
     (hasTasks params \<and> length (opt_items (p_tasks params)) \<le> MAX_PARALLEL env \<longrightarrow>
        (\<exists>t \<in> set (opt_items (p_tasks params)).
           k_agent t \<notin> set (agent_names (discoverAgents env fs (p_agentScope params))) \<and>
           e = error_result (''Unknown agent: '' @ k_agent t) Parallel)) \<and>
     (hasSingle params \<and> \<not> effectiveAsync env params \<longrightarrow>
        e = error_result (''Unknown agent: '' @ opt_str (p_agent params)) Single) \<and>
     (hasSingle params \<and> effectiveAsync env params \<and> isAsyncAvailable env \<longrightarrow>
        e = error_result (''Unknown: '' @ opt_str (p_agent params)) Single)"
proof -
  note ex = execute_request_result[OF assms(1,2), of sched fs]
  from assms(3) consider
      (chain) "hasChain params" "\<not> hasTasks params" "\<not> hasSingle params"
    | (tasks) "\<not> hasChain params" "hasTasks params" "\<not> hasSingle params"
    | (single) "\<not> hasChain params" "\<not> hasTasks params" "hasSingle params"
    by (auto simp: mode_count_def split: if_splits)
  then show ?thesis
  proof cases
    case chain
    from execute_request_chain_unknown[OF chain assms(4), of sched] obtain e where
      e: "execute_request env params sched fs = Some e" "is_validation_error e"
        "first_step_error params (hd (opt_items (p_chain params))) = None \<and>
         (\<forall>s \<in> set (opt_items (p_chain params)). \<not> (isParallelStep s \<and> parallel_of s = [])) \<longrightarrow>
         (\<exists>k < length (opt_items (p_chain params)).
           \<exists>n \<in> set (getStepAgents (opt_items (p_chain params) ! k)).
             n \<notin> set (agent_names (discoverAgents env fs (p_agentScope params))) \<and>
             e = error_result (''Unknown agent: '' @ n @ '' (step '' @ show_nat (k + 1) @ '')'') Chain)"
      by blast
    from e(1) have "execute env params sched fs = Some (e, fs)" by (simp add: ex)
    moreover from e(2) have "t_isError e" "t_results e = []" by (simp_all add: is_validation_error_def)
    ultimately show ?thesis using e(3) chain by (intro exI[of _ e]) blast
  next
    case tasks
    from execute_request_tasks_unknown[OF tasks assms(4), of sched] obtain e where
      e: "execute_request env params sched fs = Some e" "is_validation_error e"
        "length (opt_items (p_tasks params)) \<le> MAX_PARALLEL env \<longrightarrow>
        (\<exists>t \<in> set (opt_items (p_tasks params)).
           k_agent t \<notin> set (agent_names (discoverAgents env fs (p_agentScope params))) \<and>
           e = error_result (''Unknown agent: '' @ k_agent t) Parallel)"
      by blast
    from e(1) have "execute env params sched fs = Some (e, fs)" by (simp add: ex)
    moreover from e(2) have "t_isError e" "t_results e = []" by (simp_all add: is_validation_error_def)
    ultimately show ?thesis using e(3) tasks by (intro exI[of _ e]) blast
  next
    case single
    from execute_request_single_unknown[OF single assms(4), of sched] obtain e where
      e: "execute_request env params sched fs = Some e" "is_validation_error e"
        "\<not> effectiveAsync env params \<longrightarrow>
           e = error_result (''Unknown agent: '' @ opt_str (p_agent params)) Single"
        "effectiveAsync env params \<and> isAsyncAvailable env \<longrightarrow>
           e = error_result (''Unknown: '' @ opt_str (p_agent params)) Single"
      by blast
    from e(1) have "execute env params sched fs = Some (e, fs)" by (simp add: ex)
    moreover from e(2) have "t_isError e" "t_results e = []" by (simp_all add: is_validation_error_def)
    ultimately show ?thesis using e(3,4) single by (intro exI[of _ e]) blast
  qed
qed

definition demo_chain :: xparams where
  "demo_chain = demo_request\<lparr>p_chain := Some [SequentialStep ''scout'' (Some ''t''),
     SequentialStep ''ghost'' None]\<rparr>"

lemma demo_single_request:
  "\<not> truthy (p_action demo_single)"
  "\<not> blocked (checkSubagentDepth (demo_xenv below_max_depth [demo_scout]))"
  "mode_count demo_single = 1"
  "\<exists>n \<in> set (referenced_agents demo_single).
     n \<notin> set (agent_names (discoverAgents (demo_xenv below_max_depth [demo_scout]) demo_fs
                             (p_agentScope demo_single)))"
  "hasSingle demo_single" "\<not> effectiveAsync (demo_xenv below_max_depth [demo_scout]) demo_single"
  "opt_str (p_agent demo_single) = ''nope''"
  by code_simp+

text \<open>
  Witness: with the one agent \<open>scout\<close>, the single request for \<open>nope\<close> gets
  \<open>Unknown agent: nope\<close>, and the chain whose second step names \<open>ghost\<close> gets
  \<open>Unknown agent: ghost (step 2)\<close>.
\<close>

theorem unknown_agent_is_validation_error_witness:
  "execute (demo_xenv below_max_depth [demo_scout]) demo_single [] demo_fs =
     Some (error_result ''Unknown agent: nope'' Single, demo_fs) \<and>
   map_option fst (execute (demo_xenv below_max_depth [demo_scout]) demo_chain [] demo_fs) =
     Some (error_result ''Unknown agent: ghost (step 2)'' Chain)"
proof -
  from unknown_agent_is_validation_error[OF demo_single_request(1,2,3,4), of "[]"]
    demo_single_request(5,6,7)
  have "execute (demo_xenv below_max_depth [demo_scout]) demo_single [] demo_fs =
     Some (error_result ''Unknown agent: nope'' Single, demo_fs)"
    by auto
  moreover have "map_option fst (execute (demo_xenv below_max_depth [demo_scout]) demo_chain [] demo_fs) =
     Some (error_result ''Unknown agent: ghost (step 2)'' Chain)"
    by code_simp
  ultimately show ?thesis by blast
qed

text \<open>
  C6 as stated fails: the error for the unknown agent \<open>nope\<close> is \<open>Unknown agent: nope\<close>,
  and the one available agent, \<open>scout\<close>, is not in it.
\<close>

theorem unknown_agent_counterexample:
  "map_option fst (execute (demo_xenv below_max_depth [demo_scout]) demo_single [] demo_fs) =
     Some (error_result ''Unknown agent: nope'' Single) \<and>
   agent_names (discoverAgents (demo_xenv below_max_depth [demo_scout]) demo_fs None) = [''scout''] \<and>
   \<not> sublist ''scout'' (t_text (error_result ''Unknown agent: nope'' Single))"
  by code_simp

subsection \<open>The results of a parallel request\<close>

text \<open>The dialog lets the runs go on: it is not shown, or it is confirmed and not sent
  to the background.\<close>

definition dialog_runs :: "xenv \<Rightarrow> xparams \<Rightarrow> bool" where
  "dialog_runs env params =
     (if p_clarify params = Some True \<and> hasUI env
      then (case ui_custom env of Some res \<Rightarrow> confirmed res \<and> \<not> runInBackground res | None \<Rightarrow> False)
      else True)"

text \<open>The task texts the runs get: those of the request, or those of the dialog.\<close>

definition task_texts :: "xenv \<Rightarrow> xparams \<Rightarrow> string list" where
  "task_texts env params =
     (if p_clarify params = Some True \<and> hasUI env
      then (case ui_custom env of Some res \<Rightarrow> templates res | None \<Rightarrow> [])
      else map k_task (opt_items (p_tasks params)))"

lemma filled_results:
  assumes "\<forall>i < length res. \<exists>v. res ! i = Some v \<and> Q i v"
  shows "length (concat (map opt_list res)) = length res \<and>
     (\<forall>i < length res. Q i (concat (map opt_list res) ! i))"
proof -
  have "\<forall>x \<in> set res. x \<noteq> None"
  proof
    fix x assume "x \<in> set res"
    then obtain i where "i < length res" "res ! i = x" by (auto simp: in_set_conv_nth)
    with assms show "x \<noteq> None" by auto
  qed
  then have m: "map Some (concat (map opt_list res)) = res"
    by (induction res) auto
  then have l: "length (concat (map opt_list res)) = length res"
    by (metis length_map)
  have "Q i (concat (map opt_list res) ! i)" if i: "i < length res" for i
  proof -
    from assms i obtain v where v: "res ! i = Some v" "Q i v" by blast
    from i l have "map Some (concat (map opt_list res)) ! i = Some (concat (map opt_list res) ! i)"
      by simp
    with m v(1) have "concat (map opt_list res) ! i = v" by simp
    with v(2) show ?thesis by simp
  qed
  with l show ?thesis by blast
qed

lemma parallel_result_results [simp]:
  "t_results (parallel_result env params results) = results"
  "t_mode (parallel_result env params results) = Parallel"
  by (simp_all add: parallel_result_def Let_def)

text \<open>The runs of \<open>run_parallel\<close>: one result for every item, in the order of the items,
  on every schedule on which they are all done; and every schedule can go on to one.\<close>

lemma run_parallel_results:
  assumes agent: "\<forall>a t i. r_agent (runSync env a t i) = a"
    and ret: "run_parallel env params items tasks sched = Some r"
  shows "t_mode r = Parallel \<and> length (t_results r) = length items \<and>
     (\<forall>i < length items. r_agent (t_results r ! i) = k_agent (items ! i))"
proof -
  let ?fs = "\<lambda>(t :: task_item) (i :: nat) (u :: unit). (None :: single_result option, u)"
  let ?fr = "\<lambda>t i (u :: unit). (runSync env (k_agent t) (at_index tasks i) (Some i), u)"
  let ?Q = "\<lambda>i v. r_agent v = k_agent (items ! i)"
  from ret obtain results u where
    mc: "mapConcurrent items (MAX_CONCURRENCY env) ?fs ?fr () sched = Some (results, u)"
    and r: "r = parallel_result env params (concat (map opt_list results))"
    by (auto simp: run_parallel_def split: option.splits)
  have post: "fn_post items ?Q ?fs ?fr" using agent by (simp add: fn_post_def)
  from mapConcurrent_results[OF post mc]
  have "length results = length items" "\<forall>i < length results. \<exists>v. results ! i = Some v \<and> ?Q i v"
    by simp_all
  with filled_results[of results ?Q] show ?thesis by (simp add: r)
qed

lemma run_parallel_can_return:
  "\<exists>more. run_parallel env params items tasks (sched @ more) \<noteq> None"
proof -
  let ?fs = "\<lambda>(t :: task_item) (i :: nat) (u :: unit). (None :: single_result option, u)"
  let ?fr = "\<lambda>t i (u :: unit). (runSync env (k_agent t) (at_index tasks i) (Some i), u)"
  from mapConcurrent_can_return[of items "MAX_CONCURRENCY env" ?fs ?fr "()" sched]
  obtain more where "mapConcurrent items (MAX_CONCURRENCY env) ?fs ?fr () (sched @ more) \<noteq> None"
    by blast
  then have "run_parallel env params items tasks (sched @ more) \<noteq> None"
    by (auto simp: run_parallel_def split: option.splits)
  then show ?thesis by blast
qed

lemma find_None_all: "\<forall>x \<in> set xs. \<not> P x \<Longrightarrow> find P xs = None"
  by (simp add: find_None_iff)

lemma execute_parallel_runs:
  assumes only: "\<not> truthy (p_action params)" "\<not> blocked (checkSubagentDepth env)"
      "hasTasks params" "\<not> hasChain params" "\<not> hasSingle params"
    and limit: "length (opt_items (p_tasks params)) \<le> MAX_PARALLEL env"
    and known: "\<forall>t \<in> set (opt_items (p_tasks params)).
        k_agent t \<in> set (agent_names (discoverAgents env fs (p_agentScope params)))"
    and dialog: "dialog_runs env params"
  shows "execute env params sched fs =
     map_option (\<lambda>r. (r, fs))
       (run_parallel env params (opt_items (p_tasks params)) (task_texts env params) sched)"
proof -
  let ?agents = "discoverAgents env fs (p_agentScope params)"
  let ?items = "opt_items (p_tasks params)"
  from only have m: "mode_count params = 1" by (simp add: mode_count_def)
  from only have na: "\<not> effectiveAsync env params" by (simp add: effectiveAsync_def)
  from known have f: "find (\<lambda>t. find_agent ?agents (k_agent t) = None) ?items = None"
    by (intro find_None_all) (simp add: find_agent_None)
  have "execute_parallel env params ?agents ?items sched =
      run_parallel env params ?items (task_texts env params) sched"
    using limit f dialog
    by (auto simp: execute_parallel_def dialog_runs_def task_texts_def split: option.splits)
  moreover have "execute_request env params sched fs = execute_parallel env params ?agents ?items sched"
    using only m na by (simp add: execute_request_def Let_def)
  ultimately show ?thesis using only by (simp add: execute_def)
qed

text \<open>
  C5, as amended. A parallel request with \<open>N\<close> tasks (\<open>N\<close> within \<open>MAX_PARALLEL\<close>, all
  agents known) that is a request of this mode only, that the depth guard lets
  through, and whose clarify dialog, if shown, is confirmed and not sent to the
  background, returns \<open>N\<close> results in mode parallel, the \<open>i\<close>-th for the agent of the
  \<open>i\<close>-th task: this holds on every schedule, that is for every order in which the
  runs complete, and every schedule goes on to one on which \<open>execute\<close> returns. The
  result of \<open>runSync\<close> is taken to carry the name of the agent it was called for.
\<close>

theorem parallel_results_in_input_order:
  assumes "\<not> truthy (p_action params)" and "\<not> blocked (checkSubagentDepth env)"
    and "hasTasks params" and "\<not> hasChain params" and "\<not> hasSingle params"
    and "length (opt_items (p_tasks params)) \<le> MAX_PARALLEL env"
    and "\<forall>t \<in> set (opt_items (p_tasks params)).
           k_agent t \<in> set (agent_names (discoverAgents env fs (p_agentScope params)))"
    and "dialog_runs env params"
    and "\<forall>a t i. r_agent (runSync env a t i) = a"
  shows "(\<forall>sched r fs'. execute env params sched fs = Some (r, fs') \<longrightarrow>
            t_mode r = Parallel \<and> length (t_results r) = length (opt_items (p_tasks params)) \<and>
            (\<forall>i < length (opt_items (p_tasks params)).
               r_agent (t_results r ! i) = k_agent (opt_items (p_tasks params) ! i))) \<and>
         (\<forall>sched. \<exists>more. execute env params (sched @ more) fs \<noteq> None)"
proof -
  have a: "\<forall>sched r fs'. execute env params sched fs = Some (r, fs') \<longrightarrow>
            t_mode r = Parallel \<and> length (t_results r) = length (opt_items (p_tasks params)) \<and>
            (\<forall>i < length (opt_items (p_tasks params)).
               r_agent (t_results r ! i) = k_agent (opt_items (p_tasks params) ! i))"
  proof (intro allI impI)
    fix sched r fs'
    assume "execute env params sched fs = Some (r, fs')"
    then have "run_parallel env params (opt_items (p_tasks params)) (task_texts env params) sched = Some r"
      unfolding execute_parallel_runs[OF assms(1-8)] by auto
    from run_parallel_results[OF assms(9) this]
    show "t_mode r = Parallel \<and> length (t_results r) = length (opt_items (p_tasks params)) \<and>
            (\<forall>i < length (opt_items (p_tasks params)).
               r_agent (t_results r ! i) = k_agent (opt_items (p_tasks params) ! i))" .
  qed
  have b: "\<forall>sched. \<exists>more. execute env params (sched @ more) fs \<noteq> None"
  proof
    fix sched
    from run_parallel_can_return[of env params "opt_items (p_tasks params)" "task_texts env params" sched]
    show "\<exists>more. execute env params (sched @ more) fs \<noteq> None"
      unfolding execute_parallel_runs[OF assms(1-8)] by simp
  qed
  from a b show ?thesis by (rule conjI)
qed

definition demo_planner :: agent_config where
  "demo_planner = new_agent ''planner'' ''makes plans'' User ''/u/agents/planner.md''"

definition demo_parallel :: xparams where
  "demo_parallel = demo_request\<lparr>p_tasks := Some [\<lparr>k_agent = ''scout'', k_task = ''look''\<rparr>,
     \<lparr>k_agent = ''planner'', k_task = ''plan''\<rparr>]\<rparr>"

lemma demo_parallel_request:
  "\<not> truthy (p_action demo_parallel)"
  "\<not> blocked (checkSubagentDepth (demo_xenv below_max_depth [demo_scout, demo_planner]))"
  "hasTasks demo_parallel" "\<not> hasChain demo_parallel" "\<not> hasSingle demo_parallel"
  "length (opt_items (p_tasks demo_parallel)) \<le>
     MAX_PARALLEL (demo_xenv below_max_depth [demo_scout, demo_planner])"
  "\<forall>t \<in> set (opt_items (p_tasks demo_parallel)).
     k_agent t \<in> set (agent_names (discoverAgents (demo_xenv below_max_depth [demo_scout, demo_planner])
                                    demo_fs (p_agentScope demo_parallel)))"
  "dialog_runs (demo_xenv below_max_depth [demo_scout, demo_planner]) demo_parallel"
  by code_simp+

lemma demo_run_agent:
  "\<forall>a t i. r_agent (runSync (demo_xenv below_max_depth [demo_scout, demo_planner]) a t i) = a"
  by (simp add: demo_xenv_def demo_run_def)

lemma workerCount_four_2: "workerCount (Fin 4) (Suc (Suc 0)) = Suc (Suc 0)"
  by (simp add: workerCount_def safeLimit_eq)

text \<open>The run of the planner completes first, then the one of the scout.\<close>

lemma demo_parallel_run:
  "run_parallel (demo_xenv below_max_depth [demo_scout, demo_planner]) demo_parallel
     (opt_items (p_tasks demo_parallel))
     (task_texts (demo_xenv below_max_depth [demo_scout, demo_planner]) demo_parallel) [1, 0] =
   Some (parallel_result (demo_xenv below_max_depth [demo_scout, demo_planner]) demo_parallel
     [demo_run ''scout'' (Some ''look'') (Some 0), demo_run ''planner'' (Some ''plan'') (Some 1)])"
  by (simp add: run_parallel_def demo_parallel_def demo_request_def demo_xenv_def task_texts_def
      at_index_def mc_eval workerCount_four_2)

text \<open>
  Witness: the request for \<open>scout\<close> and \<open>planner\<close>. When the run of the planner
  completes first, the results are still those of \<open>scout\<close> and \<open>planner\<close> in this order.
\<close>

theorem parallel_results_in_input_order_witness:
  "(\<exists>r. execute (demo_xenv below_max_depth [demo_scout, demo_planner]) demo_parallel [1, 0] demo_fs =
      Some (r, demo_fs) \<and>
      t_mode r = Parallel \<and> length (t_results r) = 2 \<and>
      r_agent (t_results r ! 0) = ''scout'' \<and> r_agent (t_results r ! 1) = ''planner'') \<and>
   (\<exists>more. execute (demo_xenv below_max_depth [demo_scout, demo_planner]) demo_parallel ([] @ more)
      demo_fs \<noteq> None)"
proof -
  let ?env = "demo_xenv below_max_depth [demo_scout, demo_planner]"
  let ?r = "parallel_result ?env demo_parallel
     [demo_run ''scout'' (Some ''look'') (Some 0), demo_run ''planner'' (Some ''plan'') (Some 1)]"
  note inst = parallel_results_in_input_order[OF demo_parallel_request demo_run_agent]
  have e: "execute ?env demo_parallel [1, 0] demo_fs = Some (?r, demo_fs)"
    unfolding execute_parallel_runs[OF demo_parallel_request] demo_parallel_run by simp
  have items: "opt_items (p_tasks demo_parallel) =
      [\<lparr>k_agent = ''scout'', k_task = ''look''\<rparr>, \<lparr>k_agent = ''planner'', k_task = ''plan''\<rparr>]"
    by (simp add: demo_parallel_def demo_request_def)
  from inst e have "t_mode ?r = Parallel \<and> length (t_results ?r) = length (opt_items (p_tasks demo_parallel)) \<and>
      (\<forall>i < length (opt_items (p_tasks demo_parallel)).
         r_agent (t_results ?r ! i) = k_agent (opt_items (p_tasks demo_parallel) ! i))"
    by blast
  then have "t_mode ?r = Parallel \<and> length (t_results ?r) = 2 \<and>
      r_agent (t_results ?r ! 0) = ''scout'' \<and> r_agent (t_results ?r ! 1) = ''planner''"
    unfolding items by (simp add: demo_run_def)
  with e have a: "\<exists>r. execute ?env demo_parallel [1, 0] demo_fs = Some (r, demo_fs) \<and>
      t_mode r = Parallel \<and> length (t_results r) = 2 \<and>
      r_agent (t_results r ! 0) = ''scout'' \<and> r_agent (t_results r ! 1) = ''planner''"
    by blast
  from inst have "\<exists>more. execute ?env demo_parallel ([] @ more) demo_fs \<noteq> None" by blast
  with a show ?thesis by blast
qed

text \<open>
  C5 as stated fails where \<open>execute\<close> returns before the runs: at the maximum depth the
  request with two tasks, both agents known, gets the error of the depth guard, and
  with the clarify dialog cancelled it gets \<open>Cancelled\<close>; both have no results.
\<close>

theorem parallel_results_counterexample:
  "map_option fst (execute (demo_xenv at_max_depth [demo_scout, demo_planner]) demo_parallel [] demo_fs) =
     Some (nested_blocked at_max_depth) \<and>
   t_results (nested_blocked at_max_depth) = [] \<and>
   map_option fst (execute ((demo_xenv below_max_depth [demo_scout, demo_planner])\<lparr>hasUI := True\<rparr>)
       (demo_parallel\<lparr>p_clarify := Some True\<rparr>) [] demo_fs) =
     Some (cancelled Parallel) \<and>
   t_results (cancelled Parallel) = [] \<and>
   length (opt_items (p_tasks demo_parallel)) = 2 \<and>
   list_all (\<lambda>t. k_agent t \<in> set (agent_names [demo_scout, demo_planner]))
     (opt_items (p_tasks demo_parallel))"
  by code_simp

section \<open>The error detection heuristic\<close>

text \<open>
  Modelled from the spec: \<open>detectSubagentError\<close> (utils.ts) is not among the source
  files; only its tests (detect-error.test.ts) are. The definitions below follow
  section 4.11 of the specification: find the index of the last assistant message
  whose content includes non-whitespace text (a message with tool calls only does not
  count); scan the tool results after that index; a tool result with \<open>isError\<close> set, or
  whose text matches a fatal pattern of its tool, flags the run as failed; with no
  assistant text at all, every tool result is scanned. The fatal patterns are a
  parameter: \<open>fatal tool text\<close> tells whether \<open>text\<close> matches a pattern of \<open>tool\<close>.
\<close>

datatype part = TextPart string | ToolCallPart string | OtherPart

datatype message =
  AssistantMessage "part list"
  | ToolResultMessage string "part list" bool
  | OtherMessage

fun part_has_text :: "part \<Rightarrow> bool" where
  "part_has_text (TextPart t) = list_ex (\<lambda>c. \<not> is_space c) t"
| "part_has_text _ = False"

fun has_text :: "message \<Rightarrow> bool" where
  "has_text (AssistantMessage parts) = list_ex part_has_text parts"
| "has_text _ = False"

fun part_text :: "part \<Rightarrow> string" where
  "part_text (TextPart t) = t"
| "part_text _ = []"

fun tool_error :: "(string \<Rightarrow> string \<Rightarrow> bool) \<Rightarrow> message \<Rightarrow> bool" where
  "tool_error fatal (ToolResultMessage tool parts isErr) =
     (isErr \<or> fatal tool (concat (map part_text parts)))"
| "tool_error fatal _ = False"

text \<open>The loop that finds the last assistant message with text: \<open>i\<close> is the index of
  the head of the list, \<open>found\<close> the index found so far.\<close>

fun last_text_index :: "message list \<Rightarrow> nat \<Rightarrow> nat option \<Rightarrow> nat option" where
  "last_text_index [] i found = found"
| "last_text_index (m # ms) i found =
     last_text_index ms (Suc i) (if has_text m then Some i else found)"

record detect_result =
  hasError :: bool

definition detectSubagentError :: "(string \<Rightarrow> string \<Rightarrow> bool) \<Rightarrow> message list \<Rightarrow> detect_result" where
  "detectSubagentError fatal messages =
     (let start = (case last_text_index messages 0 None of None \<Rightarrow> 0 | Some k \<Rightarrow> Suc k)
      in \<lparr>hasError = list_ex (tool_error fatal) (drop start messages)\<rparr>)"

lemma last_text_index_cases:
  "(last_text_index ms i found = found \<and> (\<forall>m \<in> set ms. \<not> has_text m)) \<or>
   (\<exists>k < length ms. last_text_index ms i found = Some (i + k) \<and> has_text (ms ! k) \<and>
      (\<forall>k'. k < k' \<and> k' < length ms \<longrightarrow> \<not> has_text (ms ! k')))"
proof (induction ms arbitrary: i found)
  case Nil
  show ?case by simp
next
  case (Cons m ms)
  let ?f = "if has_text m then Some i else found"
  from Cons[of "Suc i" ?f] show ?case
  proof
    assume a: "last_text_index ms (Suc i) ?f = ?f \<and> (\<forall>m \<in> set ms. \<not> has_text m)"
    show ?thesis
    proof (cases "has_text m")
      case True
      have "\<forall>k'. 0 < k' \<and> k' < length (m # ms) \<longrightarrow> \<not> has_text ((m # ms) ! k')"
        using a by (auto simp: nth_Cons split: nat.splits)
      with a True have "0 < length (m # ms) \<and> last_text_index (m # ms) i found = Some (i + 0) \<and>
          has_text ((m # ms) ! 0) \<and>
          (\<forall>k'. 0 < k' \<and> k' < length (m # ms) \<longrightarrow> \<not> has_text ((m # ms) ! k'))"
        by simp
      then show ?thesis by blast
    next
      case False
      with a show ?thesis by simp
    qed
  next
    assume "\<exists>k < length ms. last_text_index ms (Suc i) ?f = Some (Suc i + k) \<and> has_text (ms ! k) \<and>
      (\<forall>k'. k < k' \<and> k' < length ms \<longrightarrow> \<not> has_text (ms ! k'))"
    then obtain k where k: "k < length ms" "last_text_index ms (Suc i) ?f = Some (Suc i + k)"
      "has_text (ms ! k)" "\<forall>k'. k < k' \<and> k' < length ms \<longrightarrow> \<not> has_text (ms ! k')" by blast
    have "\<forall>k'. Suc k < k' \<and> k' < length (m # ms) \<longrightarrow> \<not> has_text ((m # ms) ! k')"
      using k(4) by (auto simp: nth_Cons split: nat.splits)
    with k have "Suc k < length (m # ms) \<and> last_text_index (m # ms) i found = Some (i + Suc k) \<and>
        has_text ((m # ms) ! Suc k) \<and>
        (\<forall>k'. Suc k < k' \<and> k' < length (m # ms) \<longrightarrow> \<not> has_text ((m # ms) ! k'))"
      by simp
    then show ?thesis by blast
  qed
qed

definition scan_start :: "message list \<Rightarrow> nat" where
  "scan_start ms = (case last_text_index ms 0 None of None \<Rightarrow> 0 | Some k \<Rightarrow> Suc k)"

lemma scan_start_props:
  "scan_start ms \<le> length ms \<and>
   (\<forall>i. scan_start ms \<le> i \<and> i < length ms \<longrightarrow> \<not> has_text (ms ! i)) \<and>
   (0 < scan_start ms \<longrightarrow> has_text (ms ! (scan_start ms - 1)))"
  using last_text_index_cases[of ms 0 None]
proof
  assume "last_text_index ms 0 None = None \<and> (\<forall>m \<in> set ms. \<not> has_text m)"
  then show ?thesis by (simp add: scan_start_def)
next
  assume "\<exists>k < length ms. last_text_index ms 0 None = Some (0 + k) \<and> has_text (ms ! k) \<and>
      (\<forall>k'. k < k' \<and> k' < length ms \<longrightarrow> \<not> has_text (ms ! k'))"
  then obtain k where "k < length ms" "last_text_index ms 0 None = Some k" "has_text (ms ! k)"
      "\<forall>k'. k < k' \<and> k' < length ms \<longrightarrow> \<not> has_text (ms ! k')" by auto
  then show ?thesis by (simp add: scan_start_def Suc_le_eq)
qed

lemma list_ex_drop:
  "list_ex P (drop s xs) \<longleftrightarrow> (\<exists>j. s \<le> j \<and> j < length xs \<and> P (xs ! j))"
proof
  assume "list_ex P (drop s xs)"
  then obtain k where "k < length (drop s xs)" "P (drop s xs ! k)"
    by (auto simp: list_ex_iff in_set_conv_nth)
  then have "s \<le> s + k \<and> s + k < length xs \<and> P (xs ! (s + k))" by auto
  then show "\<exists>j. s \<le> j \<and> j < length xs \<and> P (xs ! j)" by blast
next
  assume "\<exists>j. s \<le> j \<and> j < length xs \<and> P (xs ! j)"
  then obtain j where j: "s \<le> j" "j < length xs" "P (xs ! j)" by blast
  then have "j - s < length (drop s xs)" "drop s xs ! (j - s) = xs ! j" by auto
  with j(3) show "list_ex P (drop s xs)"
    by (metis list_ex_iff nth_mem)
qed

lemma text_not_error: "has_text m \<Longrightarrow> \<not> tool_error fatal m"
  by (cases m) simp_all

text \<open>\<open>hasError\<close> is set exactly when a tool result with an error has no assistant text
  after it.\<close>

lemma detectSubagentError_iff:
  "hasError (detectSubagentError fatal ms) \<longleftrightarrow>
     (\<exists>j < length ms. tool_error fatal (ms ! j) \<and>
        (\<forall>i. j < i \<and> i < length ms \<longrightarrow> \<not> has_text (ms ! i)))"
proof -
  have d: "hasError (detectSubagentError fatal ms) \<longleftrightarrow>
      (\<exists>j. scan_start ms \<le> j \<and> j < length ms \<and> tool_error fatal (ms ! j))"
    by (simp add: detectSubagentError_def scan_start_def[symmetric] list_ex_drop)
  note p = scan_start_props[of ms]
  show ?thesis
  proof
    assume "hasError (detectSubagentError fatal ms)"
    with d obtain j where j: "scan_start ms \<le> j" "j < length ms" "tool_error fatal (ms ! j)" by blast
    with p have "\<forall>i. j < i \<and> i < length ms \<longrightarrow> \<not> has_text (ms ! i)" by auto
    with j show "\<exists>j < length ms. tool_error fatal (ms ! j) \<and>
        (\<forall>i. j < i \<and> i < length ms \<longrightarrow> \<not> has_text (ms ! i))" by blast
  next
    assume "\<exists>j < length ms. tool_error fatal (ms ! j) \<and>
        (\<forall>i. j < i \<and> i < length ms \<longrightarrow> \<not> has_text (ms ! i))"
    then obtain j where j: "j < length ms" "tool_error fatal (ms ! j)"
      "\<forall>i. j < i \<and> i < length ms \<longrightarrow> \<not> has_text (ms ! i)" by blast
    have "scan_start ms \<le> j"
    proof (rule ccontr)
      assume "\<not> scan_start ms \<le> j"
      then have lt: "j < scan_start ms" by simp
      with p have t: "has_text (ms ! (scan_start ms - 1))" by simp
      show False
      proof (cases "j = scan_start ms - 1")
        case True
        with t j(2) text_not_error show False by blast
      next
        case False
        with lt have "j < scan_start ms - 1" "scan_start ms - 1 < length ms" using p by auto
        with j(3) t show False by blast
      qed
    qed
    with j d show "hasError (detectSubagentError fatal ms)" by blast
  qed
qed


text \<open>The stream up to and including an assistant message with text can be dropped.\<close>

lemma detectSubagentError_recovered:
  assumes m: "has_text m"
  shows "hasError (detectSubagentError fatal (pre @ m # post)) = hasError (detectSubagentError fatal post)"
proof -
  let ?ms = "pre @ m # post"
  let ?n = "length pre"
  have nth_post: "\<And>k. ?ms ! (Suc (?n + k)) = post ! k"
    by (simp add: nth_append)
  have nth_m: "?ms ! ?n = m" by simp
  show ?thesis
  proof
    assume "hasError (detectSubagentError fatal ?ms)"
    then obtain j where j: "j < length ?ms" "tool_error fatal (?ms ! j)"
      "\<forall>i. j < i \<and> i < length ?ms \<longrightarrow> \<not> has_text (?ms ! i)"
      unfolding detectSubagentError_iff by blast
    have "?n < j"
    proof (rule ccontr)
      assume "\<not> ?n < j"
      then consider "j = ?n" | "j < ?n" by linarith
      then show False
      proof cases
        case 1
        with j(2) nth_m m text_not_error show False by metis
      next
        case 2
        then have "j < ?n \<and> ?n < length ?ms" by simp
        with j(3) nth_m m show False by metis
      qed
    qed
    define k where "k = j - Suc ?n"
    from \<open>?n < j\<close> have k: "j = Suc (?n + k)" by (simp add: k_def)
    with j(1) have kl: "k < length post" by simp
    have "tool_error fatal (post ! k)" using j(2) k nth_post by simp
    moreover have "\<forall>i. k < i \<and> i < length post \<longrightarrow> \<not> has_text (post ! i)"
    proof (intro allI impI)
      fix i assume "k < i \<and> i < length post"
      then have "j < Suc (?n + i) \<and> Suc (?n + i) < length ?ms" using k by simp
      with j(3) have "\<not> has_text (?ms ! Suc (?n + i))" by blast
      then show "\<not> has_text (post ! i)" using nth_post by simp
    qed
    ultimately show "hasError (detectSubagentError fatal post)"
      unfolding detectSubagentError_iff using kl by blast
  next
    assume "hasError (detectSubagentError fatal post)"
    then obtain k where k: "k < length post" "tool_error fatal (post ! k)"
      "\<forall>i. k < i \<and> i < length post \<longrightarrow> \<not> has_text (post ! i)"
      unfolding detectSubagentError_iff by blast
    have "Suc (?n + k) < length ?ms" using k(1) by simp
    moreover have "tool_error fatal (?ms ! Suc (?n + k))" using k(2) nth_post by simp
    moreover have "\<forall>i. Suc (?n + k) < i \<and> i < length ?ms \<longrightarrow> \<not> has_text (?ms ! i)"
    proof (intro allI impI)
      fix i assume i: "Suc (?n + k) < i \<and> i < length ?ms"
      define i' where "i' = i - Suc ?n"
      from i have i': "i = Suc (?n + i')" "k < i'" unfolding i'_def by linarith+
      with i have "i' < length post" by simp
      with k(3) i' have "\<not> has_text (post ! i')" by blast
      then show "\<not> has_text (?ms ! i)" using i'(1) nth_post by simp
    qed
    ultimately show "hasError (detectSubagentError fatal ?ms)"
      unfolding detectSubagentError_iff by blast
  qed
qed

text \<open>
  C2. \<open>hasError\<close> is set exactly when some tool result with an error (\<open>isError\<close>, or a
  fatal pattern of its tool) has no assistant message with non-whitespace text after
  it: the error comes after the last such message, or there is none. The results
  before an assistant message with text do not count: the stream up to and including
  that message can be dropped.
\<close>

theorem detectSubagentError_after_last_text:
  "(hasError (detectSubagentError fatal ms) \<longleftrightarrow>
      (\<exists>j < length ms. tool_error fatal (ms ! j) \<and>
         (\<forall>i. j < i \<and> i < length ms \<longrightarrow> \<not> has_text (ms ! i)))) \<and>
   (has_text m \<longrightarrow>
      hasError (detectSubagentError fatal (pre @ m # post)) = hasError (detectSubagentError fatal post) \<and>
      ((\<forall>r \<in> set post. \<not> tool_error fatal r) \<longrightarrow>
         \<not> hasError (detectSubagentError fatal (pre @ m # post))))"
proof (intro conjI impI)
  show "hasError (detectSubagentError fatal ms) \<longleftrightarrow>
      (\<exists>j < length ms. tool_error fatal (ms ! j) \<and>
         (\<forall>i. j < i \<and> i < length ms \<longrightarrow> \<not> has_text (ms ! i)))"
    by (rule detectSubagentError_iff)
next
  assume "has_text m"
  then show "hasError (detectSubagentError fatal (pre @ m # post)) = hasError (detectSubagentError fatal post)"
    by (rule detectSubagentError_recovered)
next
  assume m: "has_text m" and ne: "\<forall>r \<in> set post. \<not> tool_error fatal r"
  from ne have "\<not> hasError (detectSubagentError fatal post)"
    unfolding detectSubagentError_iff by auto
  with detectSubagentError_recovered[OF m] show "\<not> hasError (detectSubagentError fatal (pre @ m # post))"
    by simp
qed

text \<open>
  A choice of fatal patterns for concrete runs, which agrees with the tests: in the
  output of \<open>bash\<close>, \<open>permission denied\<close>, \<open>segmentation fault\<close> or an exit code marker.
\<close>

definition test_fatal :: "string \<Rightarrow> string \<Rightarrow> bool" where
  "test_fatal tool txt =
     (tool = ''bash'' \<and> (sublist ''permission denied'' txt \<or> sublist ''segmentation fault'' txt \<or>
        sublist ''exited with code '' txt))"

definition toolResult :: "string \<Rightarrow> string \<Rightarrow> bool \<Rightarrow> message" where
  "toolResult tool txt isErr = ToolResultMessage tool [TextPart txt] isErr"

definition assistantMsg :: "string \<Rightarrow> message" where
  "assistantMsg txt = AssistantMessage [TextPart txt]"

definition assistantToolCall :: "string \<Rightarrow> message" where
  "assistantToolCall tool = AssistantMessage [ToolCallPart tool]"

text \<open>The cases of detect-error.test.ts.\<close>

lemma detect_error_tests:
  "\<not> hasError (detectSubagentError test_fatal [])"
  "\<not> hasError (detectSubagentError test_fatal
      [toolResult ''read'' ''file contents here'' False, toolResult ''bash'' ''ls output'' False,
       toolResult ''read'' ''more contents'' False])"
  "hasError (detectSubagentError test_fatal
      [toolResult ''read'' ''file contents'' False,
       toolResult ''read'' ''EISDIR: illegal operation on a directory, read'' True])"
  "hasError (detectSubagentError test_fatal [toolResult ''bash'' ''ls: permission denied: /root/secret'' False])"
  "hasError (detectSubagentError test_fatal
      [toolResult ''bash'' ''error: process exited with code 127'' False])"
  "\<not> hasError (detectSubagentError test_fatal
      [toolResult ''read'' ''file contents'' False, toolResult ''bash'' ''ok'' False,
       toolResult ''read'' ''EISDIR: illegal operation on a directory'' True,
       toolResult ''bash'' ''directory listing via bash'' False,
       assistantMsg ''Here is my complete review...''])"
  "\<not> hasError (detectSubagentError test_fatal
      [toolResult ''bash'' ''ls: permission denied: /root/secret'' False,
       assistantMsg ''I could not access /root/secret, but I found the data elsewhere.''])"
  "hasError (detectSubagentError test_fatal
      [assistantMsg ''Here is my analysis...'', toolResult ''bash'' ''rm -rf /important'' False,
       toolResult ''bash'' ''error: process exited with code 1'' False])"
  "hasError (detectSubagentError test_fatal
      [toolResult ''read'' ''file ok'' False, assistantMsg ''Let me try one more thing...'',
       toolResult ''write'' ''Permission denied'' True])"
  "hasError (detectSubagentError test_fatal
      [toolResult ''read'' ''ok'' False, toolResult ''bash'' ''segmentation fault'' False])"
  "hasError (detectSubagentError test_fatal
      [toolResult ''bash'' ''permission denied: /etc/shadow'' False, assistantToolCall ''bash'',
       toolResult ''bash'' ''permission denied: /etc/shadow'' False])"
  "hasError (detectSubagentError test_fatal
      [toolResult ''read'' ''EISDIR: illegal operation on a directory'' True, assistantMsg ''   ''])"
  "\<not> hasError (detectSubagentError test_fatal
      [assistantMsg ''Hello, I am ready to help.'', assistantMsg ''Here is my analysis.''])"
  "\<not> hasError (detectSubagentError test_fatal
      [toolResult ''read'' ''ENOENT: no such file'' True,
       assistantMsg ''File not found, trying alternative...'',
       toolResult ''read'' ''file contents'' False,
       toolResult ''read'' ''EISDIR: illegal operation on a directory'' True,
       assistantMsg ''Got what I needed. Here is the full review.''])"
  by code_simp+

text \<open>
  Witness: scenario 6 of the specification (an error before the final text is
  recovered), and an error after the last text.
\<close>

theorem detectSubagentError_after_last_text_witness:
  "has_text (assistantMsg ''Complete review'') \<and>
   \<not> hasError (detectSubagentError test_fatal
      ([toolResult ''read'' ''ok'' False, toolResult ''read'' ''EISDIR'' True] @
       assistantMsg ''Complete review'' # [])) \<and>
   hasError (detectSubagentError test_fatal
      [toolResult ''read'' ''file ok'' False, assistantMsg ''Let me try one more thing...'',
       toolResult ''write'' ''Permission denied'' True])"
proof -
  have t: "has_text (assistantMsg ''Complete review'')" by code_simp
  have "\<forall>r \<in> set ([] :: message list). \<not> tool_error test_fatal r" by simp
  with detectSubagentError_after_last_text[of test_fatal "[]" "assistantMsg ''Complete review''"
      "[toolResult ''read'' ''ok'' False, toolResult ''read'' ''EISDIR'' True]" "[]"] t
  have "\<not> hasError (detectSubagentError test_fatal
      ([toolResult ''read'' ''ok'' False, toolResult ''read'' ''EISDIR'' True] @
       assistantMsg ''Complete review'' # []))" by blast
  with t detect_error_tests(9) show ?thesis by blast
qed

end
